theory Spec2Isabelle
  imports Complex_Main "HOL-Library.AList"
begin

section \<open>Data model\<close>

text \<open>
  A Python \<open>str\<close> is a sequence of Unicode code points, so text is modelled as a list of
  code points (\<open>nat\<close>). The constants below name the code points that the controller
  compares against.
\<close>

type_synonym ustr = "nat list"

definition ch_dot :: nat where "ch_dot = 46"            \<comment> \<open>\<open>.\<close>\<close>
definition ch_comma :: nat where "ch_comma = 44"        \<comment> \<open>\<open>,\<close>\<close>
definition ch_lparen :: nat where "ch_lparen = 40"      \<comment> \<open>\<open>(\<close>\<close>
definition ch_rparen :: nat where "ch_rparen = 41"      \<comment> \<open>\<open>)\<close>\<close>
definition ch_dun :: nat where "ch_dun = 12289"         \<comment> \<open>U+3001, ideographic comma\<close>
definition ch_flparen :: nat where "ch_flparen = 65288" \<comment> \<open>U+FF08, fullwidth left parenthesis\<close>
definition ch_frparen :: nat where "ch_frparen = 65289" \<comment> \<open>U+FF09, fullwidth right parenthesis\<close>
definition ch_dui :: nat where "ch_dui = 23545"         \<comment> \<open>U+5BF9, "correct"\<close>
definition ch_cuo :: nat where "ch_cuo = 38169"         \<comment> \<open>U+9519, "wrong"\<close>

text \<open>
  One entry of the recognition result \<open>words_result\<close>: the recognised text and its bounding
  box inside the capture, as documented in \<open>OCRService.recognize_text\<close>.
\<close>

record location =
  left :: int
  top :: int
  width :: int
  height :: int

record word_item =
  words :: ustr
  location :: location

type_synonym region = "int \<times> int \<times> int \<times> int"
type_synonym point = "int \<times> int"

text \<open>
  A Python \<open>dict\<close> keeps its keys distinct and in insertion order; assigning to an existing
  key replaces the entry in place, assigning to a new key appends. This is
  \<^const>\<open>AList.update\<close> on an association list. The dictionary \<open>{num: {'y': top}}\<close> of
  question numbers is a list of pairs of the number and its \<open>y\<close>.
\<close>

type_synonym question_numbers = "(nat \<times> int) list"
type_synonym option_positions = "(ustr \<times> point) list"

section \<open>Scroll distance\<close>

text \<open>
  Python's \<open>max\<close> over a non-empty iterable; \<open>_calculate_scroll_distance\<close> only calls it
  after the emptiness test, so the \<open>ValueError\<close> of the empty case is the \<open>None\<close> here.
\<close>

fun py_max :: "int list \<Rightarrow> int option" where
  "py_max [] = None"
| "py_max (x # xs) = Some (fold max xs x)"

definition calculate_scroll_distance :: "question_numbers \<Rightarrow> int \<Rightarrow> int \<Rightarrow> int option" where
  "calculate_scroll_distance qn region_height overlap =
     (if qn = [] then Some (region_height - overlap)
      else case py_max (map snd qn) of
        None \<Rightarrow> None
      | Some last_question_y \<Rightarrow>
          let scroll_distance = last_question_y - overlap;
              min_scroll = region_height div 2;
              scroll_distance = max scroll_distance min_scroll;
              scroll_distance = min scroll_distance (region_height - overlap)
          in Some scroll_distance)"

text \<open>
  The reference definition, following the words of the specification: the positions are a
  finite map from question id to vertical offset.
\<close>

definition chooseScrollDistance :: "(nat \<rightharpoonup> int) \<Rightarrow> int \<Rightarrow> int \<Rightarrow> int" where
  "chooseScrollDistance questionPositions viewHeight overlap =
     (if questionPositions = Map.empty then viewHeight - overlap
      else min (max (Max (ran questionPositions) - overlap) (viewHeight div 2))
               (viewHeight - overlap))"

section \<open>Text primitives\<close>

text \<open>
  The code points for which \<open>str.isspace\<close> holds; \<open>str.strip()\<close> without an argument
  removes exactly these from both ends.
\<close>

definition py_isspace :: "nat \<Rightarrow> bool" where
  "py_isspace c = (c \<in> set [9, 10, 11, 12, 13, 28, 29, 30, 31, 32, 133, 160, 5760,
      8192, 8193, 8194, 8195, 8196, 8197, 8198, 8199, 8200, 8201, 8202,
      8232, 8233, 8239, 8287, 12288])"

definition strip :: "ustr \<Rightarrow> ustr" where
  "strip s = rev (dropWhile py_isspace (rev (dropWhile py_isspace s)))"

text \<open>\<open>s.split(sep)\<close> for a one-character separator: never the empty list.\<close>

fun py_split :: "nat \<Rightarrow> ustr \<Rightarrow> ustr list" where
  "py_split sep [] = [[]]"
| "py_split sep (c # cs) =
     (if c = sep then [] # py_split sep cs
      else case py_split sep cs of
             [] \<Rightarrow> [[c]]
           | piece # pieces \<Rightarrow> (c # piece) # pieces)"

definition startswith :: "ustr \<Rightarrow> ustr \<Rightarrow> bool" where
  "startswith text pre = (take (length pre) text = pre)"

text \<open>
  The decimal digits of Unicode (category Nd), which are what \<open>\d\<close> matches in a \<open>str\<close>
  pattern and what \<open>int\<close> converts. They come in blocks of ten consecutive code points;
  \<open>digit_zeros\<close> lists the zero of each block.
\<close>

definition digit_zeros :: "nat list" where
  "digit_zeros = [48, 1632, 1776, 1984, 2406, 2534, 2662, 2790, 2918, 3046, 3174, 3302,
     3430, 3558, 3664, 3792, 3872, 4160, 4240, 6112, 6160, 6470, 6608, 6784, 6800, 6992,
     7088, 7232, 7248, 42528, 43216, 43264, 43472, 43504, 43600, 44016, 65296, 66720,
     68912, 69734, 69872, 69942, 70096, 70384, 70736, 70864, 71248, 71360, 71472, 71904,
     72016, 72784, 73040, 73120, 92768, 92864, 93008, 120782, 120792, 120802, 120812,
     120822, 123200, 123632, 125264, 130032]"

definition py_decimal :: "nat \<Rightarrow> nat option" where
  "py_decimal c = map_option (\<lambda>z. c - z) (find (\<lambda>z. z \<le> c \<and> c < z + 10) digit_zeros)"

definition is_digit :: "nat \<Rightarrow> bool" where
  "is_digit c = (py_decimal c \<noteq> None)"

text \<open>
  \<open>int(s)\<close> on a string of digits; \<open>None\<close> is the \<open>ValueError\<close> for an empty string or a
  character that is not a decimal digit. (Sign, underscores and surrounding blanks, which
  \<open>int\<close> also accepts, never occur in a \<open>(\d+)\<close> group. The interpreter's optional limit
  on the number of digits is a setting of the interpreter and is not modelled.)
\<close>

fun int_digits :: "nat \<Rightarrow> ustr \<Rightarrow> nat option" where
  "int_digits acc [] = Some acc"
| "int_digits acc (c # cs) =
     (case py_decimal c of None \<Rightarrow> None | Some d \<Rightarrow> int_digits (10 * acc + d) cs)"

definition py_int :: "ustr \<Rightarrow> nat option" where
  "py_int s = (if s = [] then None else int_digits 0 s)"

section \<open>Answer parsing\<close>

definition parse_answer :: "ustr \<Rightarrow> ustr list" where
  "parse_answer answer =
     (if answer = [] then []
      else let answer = strip answer in
        if ch_comma \<in> set answer then
          let options = map strip (py_split ch_comma answer);
              options = filter (\<lambda>opt. opt \<noteq> []) options
          in options
        else [answer])"

section \<open>Option markers\<close>

definition option_markers :: "ustr list" where
  "option_markers = [[65], [66], [67], [68], [69], [70], [ch_dui], [ch_cuo]]"

definition marker_matches :: "ustr \<Rightarrow> ustr \<Rightarrow> bool" where
  "marker_matches text marker =
     (text = marker \<or> startswith text (marker @ [ch_dot])
      \<or> startswith text (marker @ [ch_dun]) \<or> startswith text (marker @ [ch_frparen])
      \<or> startswith text (marker @ [ch_rparen]))"

text \<open>
  The inner \<open>for marker in option_markers\<close> stops at the first marker that matches
  (\<open>break\<close>), which is \<^const>\<open>find\<close>.
\<close>

definition matched_marker :: "word_item \<Rightarrow> ustr option" where
  "matched_marker item = find (marker_matches (strip (words item))) option_markers"

definition center :: "region \<Rightarrow> location \<Rightarrow> point" where
  "center region loc =
     (case region of (x1, y1, x2, y2) \<Rightarrow>
        (x1 + left loc + width loc div 2, y1 + top loc + height loc div 2))"

definition option_item :: "region \<Rightarrow> option_positions \<Rightarrow> word_item \<Rightarrow> option_positions" where
  "option_item region option_positions item =
     (case matched_marker item of
        None \<Rightarrow> option_positions
      | Some marker \<Rightarrow> AList.update marker (center region (location item)) option_positions)"

definition extract_option_positions :: "word_item list \<Rightarrow> region \<Rightarrow> option_positions" where
  "extract_option_positions words_result region = foldl (option_item region) [] words_result"

section \<open>Question-number markers\<close>

text \<open>
  The five regular expressions. In each, \<open>(\d+)\<close> is followed by a character that is not a
  digit, so the greedy group is the longest run of leading digits and backtracking cannot
  produce another match. \<open>$\<close> matches at the end of the text or before a final newline.
  Each matcher returns \<open>match.group(1)\<close>.
\<close>

definition at_end :: "ustr \<Rightarrow> bool" where
  "at_end r = (r = [] \<or> r = [10])"

definition digits_then :: "nat list \<Rightarrow> bool \<Rightarrow> ustr \<Rightarrow> ustr option" where
  "digits_then delims anchored text =
     (let ds = takeWhile is_digit text; rest = dropWhile is_digit text in
      if ds = [] then None
      else case rest of
             [] \<Rightarrow> None
           | c # r \<Rightarrow>
               if c \<in> set delims \<and> (if anchored then at_end r else True) then Some ds
               else None)"

definition match_fmt1 :: "ustr \<Rightarrow> ustr option" where  \<comment> \<open>\<open>^(\d+)\.$\<close>\<close>
  "match_fmt1 text = digits_then [ch_dot] True text"

definition match_fmt2 :: "ustr \<Rightarrow> ustr option" where  \<comment> \<open>\<open>^(\d+)\<close> U+3001 \<open>$\<close>\<close>
  "match_fmt2 text = digits_then [ch_dun] True text"

definition match_fmt3 :: "ustr \<Rightarrow> ustr option" where  \<comment> \<open>\<open>^[\<close>U+FF08\<open>(](\d+)[\<close>U+FF09\<open>)]$\<close>\<close>
  "match_fmt3 text =
     (case text of
        [] \<Rightarrow> None
      | c # t \<Rightarrow> if c \<in> set [ch_flparen, ch_lparen]
                 then digits_then [ch_frparen, ch_rparen] True t else None)"

definition match_fmt4 :: "ustr \<Rightarrow> ustr option" where  \<comment> \<open>\<open>^(\d+)[\<close>U+FF09\<open>)]$\<close>\<close>
  "match_fmt4 text = digits_then [ch_frparen, ch_rparen] True text"

definition match_fmt5 :: "ustr \<Rightarrow> ustr option" where  \<comment> \<open>\<open>^(\d+)[.\<close>U+3001 U+FF09\<open>)]\<close>\<close>
  "match_fmt5 text = digits_then [ch_dot, ch_dun, ch_frparen, ch_rparen] False text"

text \<open>
  One iteration of the loop over \<open>words_result\<close>. The first four shapes assign
  unconditionally; only the fifth tests \<open>num not in question_numbers\<close>. \<open>None\<close> is an
  exception escaping from \<open>int\<close>.
\<close>

definition set_question :: "question_numbers \<Rightarrow> ustr \<Rightarrow> int \<Rightarrow> question_numbers option" where
  "set_question qn g y =
     (case py_int g of None \<Rightarrow> None | Some num \<Rightarrow> Some (AList.update num y qn))"

definition set_question_if_new ::
  "question_numbers \<Rightarrow> ustr \<Rightarrow> int \<Rightarrow> question_numbers option" where
  "set_question_if_new qn g y =
     (case py_int g of
        None \<Rightarrow> None
      | Some num \<Rightarrow> Some (if num \<notin> fst ` set qn then AList.update num y qn else qn))"

definition question_item :: "question_numbers \<Rightarrow> word_item \<Rightarrow> question_numbers option" where
  "question_item qn item =
     (let text = strip (words item); y = top (location item) in
      (case match_fmt1 text of Some g \<Rightarrow> set_question qn g y
       | None \<Rightarrow>
      (case match_fmt2 text of Some g \<Rightarrow> set_question qn g y
       | None \<Rightarrow>
      (case match_fmt3 text of Some g \<Rightarrow> set_question qn g y
       | None \<Rightarrow>
      (case match_fmt4 text of Some g \<Rightarrow> set_question qn g y
       | None \<Rightarrow>
      (case match_fmt5 text of Some g \<Rightarrow> set_question_if_new qn g y
       | None \<Rightarrow> Some qn))))))"

fun question_loop :: "question_numbers \<Rightarrow> word_item list \<Rightarrow> question_numbers option" where
  "question_loop qn [] = Some qn"
| "question_loop qn (item # items) =
     (case question_item qn item of None \<Rightarrow> None | Some qn' \<Rightarrow> question_loop qn' items)"

definition extract_question_numbers :: "word_item list \<Rightarrow> question_numbers option" where
  "extract_question_numbers words_result = question_loop [] words_result"

text \<open>
  Which kind of marker a word is: an exact marker (one of the first four shapes) for the
  number it carries, or a loose one (only the fifth shape applies).
\<close>

definition exact_group :: "ustr \<Rightarrow> ustr option" where
  "exact_group text =
     (case match_fmt1 text of Some g \<Rightarrow> Some g
      | None \<Rightarrow>
     (case match_fmt2 text of Some g \<Rightarrow> Some g
      | None \<Rightarrow>
     (case match_fmt3 text of Some g \<Rightarrow> Some g
      | None \<Rightarrow> match_fmt4 text)))"

definition exact_id :: "word_item \<Rightarrow> nat option" where
  "exact_id item =
     (case exact_group (strip (words item)) of None \<Rightarrow> None | Some g \<Rightarrow> py_int g)"

definition loose_id :: "word_item \<Rightarrow> nat option" where
  "loose_id item =
     (case exact_group (strip (words item)) of
        Some g \<Rightarrow> None
      | None \<Rightarrow> (case match_fmt5 (strip (words item)) of None \<Rightarrow> None | Some g \<Rightarrow> py_int g))"

text \<open>
  The offset that ends up recorded for number \<open>n\<close> after a run over \<open>ws\<close> that started
  with \<open>before\<close> as the entry of \<open>n\<close>: the offset of the last exact marker for \<open>n\<close>, else
  the entry from before, else the offset of the first loose marker for \<open>n\<close>.
\<close>

definition recorded :: "word_item list \<Rightarrow> nat \<Rightarrow> int option \<Rightarrow> int option" where
  "recorded ws n before =
     (case find (\<lambda>w. exact_id w = Some n) (rev ws) of
        Some w \<Rightarrow> Some (top (location w))
      | None \<Rightarrow>
        (case before of
           Some y \<Rightarrow> Some y
         | None \<Rightarrow> map_option (\<lambda>w. top (location w)) (find (\<lambda>w. loose_id w = Some n) ws)))"

section \<open>Collaborators, state and log\<close>

text \<open>
  Exceptions. \<open>External c\<close> is any exception raised inside a collaborator (capture,
  recognition, answer oracle, pointer injection), \<open>c\<close> identifying it.
  \<open>AutomationException\<close> is what \<open>click_position\<close> and \<open>_scroll_page\<close> raise around a
  failure; \<open>StageException\<close> is the \<open>raise Exception(f"...: {e}")\<close> with which
  \<open>_answer_single_question\<close> wraps the failure of one of its stages.
\<close>

datatype stage = Capture | Recognition | Analysis | ClickAnswer | ClickNext

datatype exn =
    External nat
  | TypeError
  | ValueError
  | OverflowError
  | UnboundLocalError
  | AutomationException exn
  | StageException stage exn

datatype ocr_mode = General_basic | Accurate_basic | Other_mode

text \<open>
  What \<open>recognize_text\<close> returns: a dictionary with the text and the positioned words, or a
  plain string.
\<close>

datatype ocr_result = OcrDict ustr "word_item list" | OcrStr ustr

text \<open>
  The world outside the controller. Every read of the stop flag and every call of a
  collaborator takes the next tick of a clock, and the environment says what that read or
  call yields at that tick: the stop flag is written by another thread, and the
  collaborators answer as they please. \<open>sleep_overflows\<close> belongs to the platform: it
  says which finite lengths of time are beyond the range of its clock.
\<close>

record env =
  sleep_overflows :: "real \<Rightarrow> bool"
  stop_flag :: "nat \<Rightarrow> bool"
  capture_region :: "nat \<Rightarrow> exn option"
  recognize_text :: "nat \<Rightarrow> exn + ocr_result"
  analyze_question :: "nat \<Rightarrow> exn + ustr"
  pyautogui_click :: "nat \<Rightarrow> exn option"
  pyautogui_moveTo :: "nat \<Rightarrow> exn option"
  pyautogui_scroll :: "nat \<Rightarrow> exn option"

datatype action = Click int int | MoveTo int int | Scroll int

text \<open>The lines written through \<open>_log\<close>, one constructor for each message format.\<close>

datatype log_msg =
    LogStart
  | LogStartScroll
  | LogStopped
  | LogError nat exn
  | LogComplete int
  | LogProcessing nat
  | LogShotOk nat
  | LogOcrOkAccurate nat
  | LogAutoOptions nat "ustr list"
  | LogOcrOkBasic nat
  | LogText ustr
  | LogAI nat ustr
  | LogParsed nat "ustr list"
  | LogClick nat ustr int int
  | LogUnmarked nat ustr
  | LogNotFound nat ustr
  | LogNext nat
  | LogCaptureOk nat int
  | LogCaptureFailed exn
  | LogOcrWarn
  | LogOcrFormat
  | LogOcrFailed exn
  | LogNumbers "nat list"
  | LogNoNumbers
  | LogAllAnswered
  | LogDone nat
  | LogScroll int int

text \<open>
  The state the worker threads through its calls: the clock, the set
  \<open>answered_questions\<close> of the scroll loop, the log and the pointer actions performed.
\<close>

record state =
  clock :: nat
  answered_questions :: "nat set"
  logged :: "log_msg list"
  actions :: "action list"

text \<open>
  A Python \<open>float\<close>: a finite number, an infinity, or not a number. \<open>float_negative\<close>
  is the comparison \<open>x < 0\<close>, which is false for NaN.
\<close>

datatype pyfloat = Finite real | PosInf | NegInf | NaN

definition float_negative :: "pyfloat \<Rightarrow> bool" where
  "float_negative x = (case x of Finite r \<Rightarrow> r < 0 | PosInf \<Rightarrow> False | NegInf \<Rightarrow> True
                       | NaN \<Rightarrow> False)"

text \<open>The arguments of \<open>start_answering\<close>; the two lengths of time are floats.\<close>

record params =
  region :: region
  option_positions :: "option_positions option"
  next_button_pos :: "point option"
  interval :: pyfloat
  total_questions :: int
  auto_next :: bool
  scroll_overlap :: int
  scroll_delay :: pyfloat

definition write_log :: "log_msg \<Rightarrow> state \<Rightarrow> state" where
  "write_log m st = st\<lparr>logged := logged st @ [m]\<rparr>"

definition tick :: "state \<Rightarrow> state" where
  "tick st = st\<lparr>clock := Suc (clock st)\<rparr>"

definition act :: "action \<Rightarrow> state \<Rightarrow> state" where
  "act a st = st\<lparr>actions := actions st @ [a]\<rparr>"

definition read_stop_flag :: "env \<Rightarrow> state \<Rightarrow> bool \<times> state" where
  "read_stop_flag env st = (stop_flag env (clock st), tick st)"

text \<open>
  \<open>time.sleep\<close> on a float: \<open>ValueError\<close> for NaN, \<open>OverflowError\<close> for an infinity or
  a length beyond the range of the platform's clock (of either sign), \<open>ValueError\<close> for a
  negative length, in this order; otherwise it returns.
\<close>

definition py_sleep :: "env \<Rightarrow> pyfloat \<Rightarrow> exn option" where
  "py_sleep env secs =
     (case secs of
        NaN \<Rightarrow> Some ValueError
      | PosInf \<Rightarrow> Some OverflowError
      | NegInf \<Rightarrow> Some OverflowError
      | Finite r \<Rightarrow>
          if sleep_overflows env r then Some OverflowError
          else if r < 0 then Some ValueError
          else None)"

definition click_position :: "env \<Rightarrow> int \<Rightarrow> int \<Rightarrow> state \<Rightarrow> exn option \<times> state" where
  "click_position env x y st =
     (case pyautogui_click env (clock st) of
        Some e \<Rightarrow> (Some (AutomationException e), tick st)
      | None \<Rightarrow> (None, act (Click x y) (tick st)))"

definition scroll_page :: "env \<Rightarrow> int \<Rightarrow> point \<Rightarrow> pyfloat \<Rightarrow> state \<Rightarrow> exn option \<times> state" where
  "scroll_page env distance scroll_center delay st =
     (case pyautogui_moveTo env (clock st) of
        Some e \<Rightarrow> (Some (AutomationException e), tick st)
      | None \<Rightarrow>
          let st1 = act (MoveTo (fst scroll_center) (snd scroll_center)) (tick st);
              scroll_clicks = - (distance div 120)
          in if scroll_clicks \<noteq> 0 then
               (case pyautogui_scroll env (clock st1) of
                  Some e \<Rightarrow> (Some (AutomationException e), tick st1)
                | None \<Rightarrow>
                    let st2 = write_log (LogScroll distance scroll_clicks)
                                (act (Scroll scroll_clicks) (tick st1))
                    in (case py_sleep env delay of
                          Some e \<Rightarrow> (Some (AutomationException e), st2)
                        | None \<Rightarrow> (None, st2)))
             else (None, st1))"

section \<open>Clicking the options of an answer\<close>

text \<open>
  The loop \<open>for option in answer_options\<close>, which both answering loops contain; they
  differ in the warning logged for an option without a position (\<open>warn\<close>). With
  \<open>option_positions\<close> being \<open>None\<close> the test \<open>option in option_positions\<close> raises
  \<open>TypeError\<close>.
\<close>

fun click_options ::
  "env \<Rightarrow> (nat \<Rightarrow> ustr \<Rightarrow> log_msg) \<Rightarrow> nat \<Rightarrow> option_positions option \<Rightarrow> ustr list \<Rightarrow> state
     \<Rightarrow> exn option \<times> state" where
  "click_options env warn q positions [] st = (None, st)"
| "click_options env warn q positions (opt # rest) st =
     (case positions of
        None \<Rightarrow> (Some TypeError, st)
      | Some pos \<Rightarrow>
          (case map_of pos opt of
             Some (x, y) \<Rightarrow>
               (case click_position env x y st of
                  (Some e, st') \<Rightarrow> (Some e, st')
                | (None, st') \<Rightarrow>
                    click_options env warn q positions rest (write_log (LogClick q opt x y) st'))
           | None \<Rightarrow> click_options env warn q positions rest (write_log (warn q opt) st)))"

section \<open>The fixed-page loop\<close>

text \<open>
  \<open>_answer_single_question\<close>, in its four stages and the click on the next button. Each
  returns the exception that leaves it, if any, and the state reached.
\<close>

definition recognize_stage ::
  "env \<Rightarrow> params \<Rightarrow> nat \<Rightarrow> state \<Rightarrow> (exn + ustr \<times> option_positions option) \<times> state" where
  "recognize_stage env P question_num st =
     (case recognize_text env (clock st) of
        Inl e \<Rightarrow> (Inl (StageException Recognition e), tick st)
      | Inr (OcrDict question_text words_result) \<Rightarrow>
          let st1 = write_log (LogOcrOkAccurate question_num) (tick st) in
          (case option_positions P of
             None \<Rightarrow>
               let positions = extract_option_positions words_result (region P);
                   st2 = write_log (LogAutoOptions question_num (map fst positions)) st1
               in (Inr (question_text, Some positions),
                   write_log (LogText (take 50 question_text)) st2)
           | Some positions \<Rightarrow>
               (Inr (question_text, Some positions),
                write_log (LogText (take 50 question_text)) st1))
      | Inr (OcrStr question_text) \<Rightarrow>
          (Inr (question_text, option_positions P),
           write_log (LogText (take 50 question_text))
             (write_log (LogOcrOkBasic question_num) (tick st))))"

definition click_stage ::
  "env \<Rightarrow> nat \<Rightarrow> option_positions option \<Rightarrow> ustr \<Rightarrow> state \<Rightarrow> exn option \<times> state" where
  "click_stage env question_num positions answer st =
     (let answer_options = parse_answer answer;
          st1 = write_log (LogParsed question_num answer_options) st
      in case click_options env LogUnmarked question_num positions answer_options st1 of
           (Some e, st2) \<Rightarrow> (Some (StageException ClickAnswer e), st2)
         | (None, st2) \<Rightarrow> (None, st2))"

definition next_stage :: "env \<Rightarrow> params \<Rightarrow> nat \<Rightarrow> bool \<Rightarrow> state \<Rightarrow> exn option \<times> state" where
  "next_stage env P question_num is_last st =
     (if \<not> is_last \<and> \<not> auto_next P \<and> next_button_pos P \<noteq> None then
        (case next_button_pos P of
           None \<Rightarrow> (None, st)
         | Some (x, y) \<Rightarrow>
             (case click_position env x y st of
                (Some e, st1) \<Rightarrow> (Some (StageException ClickNext e), st1)
              | (None, st1) \<Rightarrow> (None, write_log (LogNext question_num) st1)))
      else (None, st))"

definition answer_single_question ::
  "env \<Rightarrow> params \<Rightarrow> nat \<Rightarrow> bool \<Rightarrow> state \<Rightarrow> exn option \<times> state" where
  "answer_single_question env P question_num is_last st =
     (let st0 = write_log (LogProcessing question_num) st in
      case capture_region env (clock st0) of
        Some e \<Rightarrow> (Some (StageException Capture e), tick st0)
      | None \<Rightarrow>
          (case recognize_stage env P question_num (write_log (LogShotOk question_num) (tick st0)) of
             (Inl e, st2) \<Rightarrow> (Some e, st2)
           | (Inr (question_text, positions), st2) \<Rightarrow>
               (case analyze_question env (clock st2) of
                  Inl e \<Rightarrow> (Some (StageException Analysis e), tick st2)
                | Inr answer \<Rightarrow>
                    (case click_stage env question_num positions answer
                            (write_log (LogAI question_num answer) (tick st2)) of
                       (Some e, st4) \<Rightarrow> (Some e, st4)
                     | (None, st4) \<Rightarrow> next_stage env P question_num is_last st4))))"

text \<open>
  The body of \<open>for i in range(1, total_questions + 1)\<close>, over the indices still to come.
  An exception of \<open>_answer_single_question\<close> is logged and the loop continues with the
  next index, skipping the sleep. The sleep is outside the \<open>try\<close>: its exception leaves
  the loop.
\<close>

fun normal_for :: "env \<Rightarrow> params \<Rightarrow> nat list \<Rightarrow> state \<Rightarrow> exn option \<times> state" where
  "normal_for env P [] st = (None, st)"
| "normal_for env P (i # rest) st =
     (case read_stop_flag env st of
        (True, st1) \<Rightarrow> (None, write_log LogStopped st1)
      | (False, st1) \<Rightarrow>
          let is_last = (int i = total_questions P) in
          (case answer_single_question env P i is_last st1 of
             (Some e, st2) \<Rightarrow> normal_for env P rest (write_log (LogError i e) st2)
           | (None, st2) \<Rightarrow>
               if \<not> is_last then
                 (case read_stop_flag env st2 of
                    (True, st3) \<Rightarrow> normal_for env P rest st3
                  | (False, st3) \<Rightarrow>
                      (case py_sleep env (interval P) of
                         Some e \<Rightarrow> (Some e, st3)
                       | None \<Rightarrow> normal_for env P rest st3))
               else normal_for env P rest st2))"

text \<open>\<open>range(1, total + 1)\<close>: the indices are positive, empty for \<open>total \<le> 0\<close>.\<close>

definition py_range1 :: "int \<Rightarrow> nat list" where
  "py_range1 n = [1..<Suc (nat n)]"

definition answering_loop_normal_mode :: "env \<Rightarrow> params \<Rightarrow> state \<Rightarrow> exn option \<times> state" where
  "answering_loop_normal_mode env P st =
     (case normal_for env P (py_range1 (total_questions P)) (write_log LogStart st) of
        (Some e, st1) \<Rightarrow> (Some e, st1)
      | (None, st1) \<Rightarrow>
          (case read_stop_flag env st1 of
             (True, st2) \<Rightarrow> (None, st2)
           | (False, st2) \<Rightarrow> (None, write_log (LogComplete (total_questions P)) st2)))"

section \<open>The scroll loop\<close>

definition mark_answered :: "nat \<Rightarrow> state \<Rightarrow> state" where
  "mark_answered q st = st\<lparr>answered_questions := insert q (answered_questions st)\<rparr>"

text \<open>
  The \<open>try\<close> block for one question of the window: the option positions, the oracle, the
  clicks, \<open>answered_questions.add\<close>, and the sleep unless the stop flag is set.
\<close>

definition answer_body ::
  "env \<Rightarrow> params \<Rightarrow> ustr \<Rightarrow> word_item list \<Rightarrow> nat \<Rightarrow> state \<Rightarrow> exn option \<times> state" where
  "answer_body env P question_text words_result question_num st =
     (let option_positions_temp =
            (case option_positions P of
               None \<Rightarrow> extract_option_positions words_result (region P)
             | Some pos \<Rightarrow> pos)
      in case analyze_question env (clock st) of
           Inl e \<Rightarrow> (Some e, tick st)
         | Inr answer \<Rightarrow>
             let st1 = write_log (LogAI question_num answer) (tick st);
                 answer_options = parse_answer answer;
                 st2 = write_log (LogParsed question_num answer_options) st1
             in (case click_options env LogNotFound question_num (Some option_positions_temp)
                        answer_options st2 of
                   (Some e, st3) \<Rightarrow> (Some e, st3)
                 | (None, st3) \<Rightarrow>
                     (case read_stop_flag env
                             (write_log (LogDone question_num) (mark_answered question_num st3)) of
                        (True, st5) \<Rightarrow> (None, st5)
                      | (False, st5) \<Rightarrow> (py_sleep env (interval P), st5))))"

text \<open>
  The \<open>try\<close> with its handler: an exception is logged and the question is added to
  \<open>answered_questions\<close> all the same.
\<close>

definition answer_question ::
  "env \<Rightarrow> params \<Rightarrow> ustr \<Rightarrow> word_item list \<Rightarrow> nat \<Rightarrow> state \<Rightarrow> state" where
  "answer_question env P question_text words_result question_num st =
     (case answer_body env P question_text words_result question_num st of
        (None, st1) \<Rightarrow> st1
      | (Some e, st1) \<Rightarrow> mark_answered question_num (write_log (LogError question_num e) st1))"

text \<open>
  \<open>for question_num in unanswered_in_view\<close>: left when the stop flag is set or the
  target count is reached.
\<close>

fun answer_window ::
  "env \<Rightarrow> params \<Rightarrow> ustr \<Rightarrow> word_item list \<Rightarrow> nat list \<Rightarrow> state \<Rightarrow> state" where
  "answer_window env P question_text words_result [] st = st"
| "answer_window env P question_text words_result (question_num # rest) st =
     (case read_stop_flag env st of
        (True, st1) \<Rightarrow> st1
      | (False, st1) \<Rightarrow>
          if total_questions P \<le> int (card (answered_questions st1)) then st1
          else answer_window env P question_text words_result rest
                 (answer_question env P question_text words_result question_num st1))"

definition scroll_center :: "region \<Rightarrow> point" where
  "scroll_center r = (case r of (x1, y1, x2, y2) \<Rightarrow> ((x1 + x2) div 2, (y1 + y2) div 2))"

definition region_height :: "region \<Rightarrow> int" where
  "region_height r = (case r of (x1, y1, x2, y2) \<Rightarrow> y2 - y1)"

text \<open>
  How the loop is left, or that it goes on: \<open>Completed\<close> when the \<open>while\<close> condition
  fails, \<open>Stopped\<close> through the stop flag, \<open>Aborted\<close> through the \<open>break\<close> after a capture
  or recognition failure, \<open>Raised\<close> with an exception that nothing in the loop catches,
  and \<open>OutOfFuel\<close> when the bound on the iterations that the model puts on the \<open>while\<close>
  is used up.
\<close>

datatype status = Continue | Completed | Stopped | Aborted | Raised exn | OutOfFuel

definition scroll_step :: "env \<Rightarrow> params \<Rightarrow> int option \<Rightarrow> state \<Rightarrow> status \<times> state" where
  "scroll_step env P distance st =
     (case distance of
        None \<Rightarrow> (Raised ValueError, st)
      | Some d \<Rightarrow>
          (case scroll_page env d (scroll_center (region P)) (scroll_delay P) st of
             (Some e, st1) \<Rightarrow> (Raised e, st1)
           | (None, st1) \<Rightarrow> (Continue, st1)))"

text \<open>Steps 3 to 6 of one pass, from the question numbers found in the window.\<close>

definition scroll_window ::
  "env \<Rightarrow> params \<Rightarrow> ustr \<Rightarrow> word_item list \<Rightarrow> question_numbers \<Rightarrow> state \<Rightarrow> status \<times> state" where
  "scroll_window env P question_text words_result question_numbers st =
     (let st1 = write_log (LogNumbers (sort (map fst question_numbers))) st in
      if question_numbers = [] then
        scroll_step env P (Some (region_height (region P) - scroll_overlap P))
          (write_log LogNoNumbers st1)
      else
        let current_questions = sort (map fst question_numbers);
            unanswered_in_view =
              filter (\<lambda>q. q \<notin> answered_questions st1) current_questions
        in if unanswered_in_view = [] then
             scroll_step env P
               (calculate_scroll_distance question_numbers (region_height (region P))
                  (scroll_overlap P))
               (write_log LogAllAnswered st1)
           else
             let st2 = answer_window env P question_text words_result unanswered_in_view st1
             in if int (card (answered_questions st2)) < total_questions P then
                  scroll_step env P
                    (calculate_scroll_distance question_numbers (region_height (region P))
                       (scroll_overlap P))
                    st2
                else (Continue, st2))"

text \<open>
  The recognition of one pass and what follows it. A recognition failure, or a result that
  is not a dictionary, leaves the loop through \<open>break\<close>.
\<close>

definition scroll_recognize :: "env \<Rightarrow> params \<Rightarrow> state \<Rightarrow> status \<times> state" where
  "scroll_recognize env P st =
     (case recognize_text env (clock st) of
        Inl e \<Rightarrow> (Aborted, write_log (LogOcrFailed e) (tick st))
      | Inr (OcrStr text) \<Rightarrow> (Aborted, write_log LogOcrFormat (tick st))
      | Inr (OcrDict question_text words_result) \<Rightarrow>
          (case extract_question_numbers words_result of
             None \<Rightarrow> (Raised ValueError, tick st)
           | Some question_numbers \<Rightarrow>
               scroll_window env P question_text words_result question_numbers (tick st)))"

text \<open>
  One pass of the \<open>while\<close> body. The recognition mode is forced to \<open>accurate_basic\<close>
  before the first recognition and stays so.
\<close>

definition scroll_iteration ::
  "env \<Rightarrow> params \<Rightarrow> ocr_mode \<Rightarrow> state \<Rightarrow> status \<times> ocr_mode \<times> state" where
  "scroll_iteration env P mode st =
     (case read_stop_flag env st of
        (True, st1) \<Rightarrow> (Stopped, mode, write_log LogStopped st1)
      | (False, st1) \<Rightarrow>
          (case capture_region env (clock st1) of
             Some e \<Rightarrow> (Aborted, mode, write_log (LogCaptureFailed e) (tick st1))
           | None \<Rightarrow>
               let st2 = write_log (LogCaptureOk (card (answered_questions st1))
                                      (total_questions P)) (tick st1);
                   st3 = (if mode \<noteq> Accurate_basic then write_log LogOcrWarn st2 else st2)
               in (case scroll_recognize env P st3 of
                     (s, st4) \<Rightarrow> (s, Accurate_basic, st4))))"

fun scroll_while :: "nat \<Rightarrow> env \<Rightarrow> params \<Rightarrow> ocr_mode \<Rightarrow> state \<Rightarrow> status \<times> state" where
  "scroll_while 0 env P mode st = (OutOfFuel, st)"
| "scroll_while (Suc fuel) env P mode st =
     (if int (card (answered_questions st)) < total_questions P then
        (case scroll_iteration env P mode st of
           (Continue, mode1, st1) \<Rightarrow> scroll_while fuel env P mode1 st1
         | (s, mode1, st1) \<Rightarrow> (s, st1))
      else (Completed, st))"

text \<open>
  \<open>_answering_loop_scroll_mode\<close>: the set starts empty; after the loop the completion
  line is logged unless the stop flag is set.
\<close>

definition answering_loop_scroll_mode ::
  "nat \<Rightarrow> env \<Rightarrow> params \<Rightarrow> ocr_mode \<Rightarrow> state \<Rightarrow> status \<times> state" where
  "answering_loop_scroll_mode fuel env P mode st =
     (case scroll_while fuel env P mode
             ((write_log LogStartScroll st)\<lparr>answered_questions := {}\<rparr>) of
        (Raised e, st1) \<Rightarrow> (Raised e, st1)
      | (OutOfFuel, st1) \<Rightarrow> (OutOfFuel, st1)
      | (s, st1) \<Rightarrow>
          (case read_stop_flag env st1 of
             (True, st2) \<Rightarrow> (s, st2)
           | (False, st2) \<Rightarrow>
               (s, write_log (LogComplete (int (card (answered_questions st2)))) st2)))"

text \<open>
  Replaying a log: \<open>done\<close> holds the questions for which the log so far has a line that
  ends their processing (\<open>LogDone\<close>, or \<open>LogError\<close> from the handler). The log is in
  order when every line of the work on a question (oracle answer, parsed answer, click,
  missing option, completion) comes while that question is not yet in \<open>done\<close>.
\<close>

fun finished :: "log_msg list \<Rightarrow> nat list" where
  "finished [] = []"
| "finished (LogDone q # ms) = q # finished ms"
| "finished (LogError q e # ms) = q # finished ms"
| "finished (m # ms) = finished ms"

fun about :: "log_msg \<Rightarrow> nat option" where
  "about (LogAI q a) = Some q"
| "about (LogParsed q os) = Some q"
| "about (LogClick q opt x y) = Some q"
| "about (LogNotFound q opt) = Some q"
| "about (LogDone q) = Some q"
| "about m = None"

fun in_order :: "nat set \<Rightarrow> log_msg list \<Rightarrow> bool" where
  "in_order done [] = True"
| "in_order done (m # ms) =
     ((case about m of None \<Rightarrow> True | Some q \<Rightarrow> q \<notin> done)
      \<and> in_order (done \<union> set (finished [m])) ms)"

definition initial_state :: state where
  "initial_state = \<lparr>clock = 0, answered_questions = {}, logged = [], actions = []\<rparr>"

section \<open>Starting a session from the main window\<close>

text \<open>
  What \<open>_on_start_button_click\<close> reads: whether each credential is set, the widgets'
  variables, the region and the marked option positions. The entry fields hold text;
  \<open>None\<close> in \<open>interval_var\<close>, \<open>total_questions_var\<close>, \<open>scroll_overlap_var\<close> and
  \<open>scroll_delay_var\<close> is text that \<open>float\<close> or \<open>int\<close> rejects with \<open>ValueError\<close>.
\<close>

datatype answering_mode = Fixed | Scrolling

record gui =
  is_running :: bool
  api_key :: bool
  baidu_basic_api_key :: bool
  baidu_basic_secret_key :: bool
  baidu_accurate_api_key :: bool
  baidu_accurate_secret_key :: bool
  ocr_mode_var :: ocr_mode
  gui_region :: "region option"
  gui_option_positions :: "(option_positions \<times> point option) option"
  interval_var :: "pyfloat option"
  total_questions_var :: "int option"
  auto_next_var :: bool
  answering_mode_var :: answering_mode
  scroll_overlap_var :: "int option"
  scroll_delay_var :: "pyfloat option"

datatype message =
    NeedApiKey | NeedBasicApiKey | NeedBasicSecretKey | NeedAccurateApiKey
  | NeedAccurateSecretKey | NeedRegion | NeedOptionPositions
  | BadInterval | BadTotal | BadOverlap | BadDelay

text \<open>
  The outcomes: a \<open>messagebox.showerror\<close> titled as a configuration error followed by
  \<open>return\<close>; the handler of the outer \<open>try\<close>, which reports that starting failed with the
  text of the exception; the call of \<open>start_answering\<close>; or the request to stop.
\<close>

datatype start_outcome =
    ConfigError message
  | StartFailed exn
  | Started params ocr_mode bool
  | StopRequested

definition check_keys :: "gui \<Rightarrow> message option" where
  "check_keys g =
     (if ocr_mode_var g = General_basic then
        (if \<not> baidu_basic_api_key g then Some NeedBasicApiKey
         else if \<not> baidu_basic_secret_key g then Some NeedBasicSecretKey
         else None)
      else
        (if \<not> baidu_accurate_api_key g then Some NeedAccurateApiKey
         else if \<not> baidu_accurate_secret_key g then Some NeedAccurateSecretKey
         else None))"

text \<open>Reading a local variable: \<open>UnboundLocalError\<close> when nothing was assigned to it yet.\<close>

definition read_local :: "'a option \<Rightarrow> exn + 'a" where
  "read_local v = (case v of None \<Rightarrow> Inl UnboundLocalError | Some x \<Rightarrow> Inr x)"

definition check_option_positions :: "bool \<Rightarrow> gui \<Rightarrow> message option" where
  "check_option_positions scroll_mode g =
     (if \<not> scroll_mode then
        (if ocr_mode_var g = General_basic then
           (case gui_option_positions g of
              None \<Rightarrow> Some NeedOptionPositions
            | Some (options, nxt) \<Rightarrow> if options = [] then Some NeedOptionPositions else None)
         else None)
      else None)"

text \<open>
  The settings read after the validation of the option positions, and the call of
  \<open>start_answering\<close>; \<open>r\<close> is the region, already known to be set.
\<close>

definition read_settings :: "gui \<Rightarrow> region \<Rightarrow> start_outcome" where
  "read_settings g r =
     (case interval_var g of
        None \<Rightarrow> ConfigError BadInterval
      | Some interval0 \<Rightarrow>
     (if float_negative interval0 then ConfigError BadInterval
      else
     (case total_questions_var g of
        None \<Rightarrow> ConfigError BadTotal
      | Some total0 \<Rightarrow>
     (if total0 \<le> 0 then ConfigError BadTotal
      else
        let scroll_mode = (answering_mode_var g = Scrolling) in
        if scroll_mode then
          (case scroll_overlap_var g of
             None \<Rightarrow> ConfigError BadOverlap
           | Some overlap0 \<Rightarrow>
          (if overlap0 < 0 then ConfigError BadOverlap
           else
          (case scroll_delay_var g of
             None \<Rightarrow> ConfigError BadDelay
           | Some delay0 \<Rightarrow>
          (if float_negative delay0 then ConfigError BadDelay
           else
             Started \<lparr>region = r, option_positions = None, next_button_pos = None,
                      interval = interval0, total_questions = total0,
                      auto_next = auto_next_var g, scroll_overlap = overlap0,
                      scroll_delay = delay0\<rparr> (ocr_mode_var g) True))))
        else if ocr_mode_var g = General_basic then
          (case gui_option_positions g of
             None \<Rightarrow> StartFailed TypeError
           | Some (options, nxt) \<Rightarrow>
               Started \<lparr>region = r, option_positions = Some options, next_button_pos = nxt,
                        interval = interval0, total_questions = total0,
                        auto_next = auto_next_var g, scroll_overlap = 150,
                        scroll_delay = Finite 1\<rparr> (ocr_mode_var g) False)
        else
          Started \<lparr>region = r, option_positions = None, next_button_pos = None,
                   interval = interval0, total_questions = total0,
                   auto_next = auto_next_var g, scroll_overlap = 150,
                   scroll_delay = Finite 1\<rparr> (ocr_mode_var g) False))))"

text \<open>
  \<open>_on_start_button_click\<close>. The function assigns to \<open>scroll_mode\<close> further down (where
  the answering mode is read), so the name is a local variable of the whole function, and
  at the validation of the option positions, which reads it, nothing has been assigned to
  it yet: the read is \<open>read_local None\<close>.
\<close>

definition on_start_button_click :: "gui \<Rightarrow> start_outcome" where
  "on_start_button_click g =
     (if \<not> is_running g then
        (if \<not> api_key g then ConfigError NeedApiKey
         else
           (case check_keys g of
              Some m \<Rightarrow> ConfigError m
            | None \<Rightarrow>
                (case gui_region g of
                   None \<Rightarrow> ConfigError NeedRegion
                 | Some r \<Rightarrow>
                     (case read_local (None :: bool option) of
                        Inl e \<Rightarrow> StartFailed e
                      | Inr scroll_mode \<Rightarrow>
                          (case check_option_positions scroll_mode g of
                             Some m \<Rightarrow> ConfigError m
                           | None \<Rightarrow> read_settings g r)))))
      else StopRequested)"

section \<open>Reading the log of the fixed-page loop\<close>

text \<open>The indices for which an iteration began: those of the lines \<open>LogProcessing\<close>.\<close>

fun started :: "log_msg list \<Rightarrow> nat list" where
  "started [] = []"
| "started (LogProcessing i # ms) = i # started ms"
| "started (m # ms) = started ms"

text \<open>
  An environment in which every collaborator fails at every call, the stop flag is
  never set and the clock takes lengths up to 9223372036 seconds, and the arguments of a fixed-page session of three questions.
\<close>

definition failing_env :: env where
  "failing_env = \<lparr>sleep_overflows = (\<lambda>r. 9223372036 < \<bar>r\<bar>), stop_flag = (\<lambda>t. False), capture_region = (\<lambda>t. Some (External 1)),
     recognize_text = (\<lambda>t. Inl (External 2)), analyze_question = (\<lambda>t. Inl (External 3)),
     pyautogui_click = (\<lambda>t. Some (External 4)), pyautogui_moveTo = (\<lambda>t. Some (External 5)),
     pyautogui_scroll = (\<lambda>t. Some (External 6))\<rparr>"

definition fixed_params :: params where
  "fixed_params = \<lparr>region = (0, 0, 800, 600), option_positions = None,
     next_button_pos = Some (700, 550), interval = Finite 3, total_questions = 3,
     auto_next = False, scroll_overlap = 150, scroll_delay = Finite 1\<rparr>"

text \<open>
  The fixed-page scenario of the specification: each capture shows a question line and
  the option markers \<open>A.\<close> to \<open>D.\<close>; the oracle answers \<open>B\<close>; nothing fails.
\<close>

definition page_words :: "word_item list" where
  "page_words =
     [\<lparr>words = [49, 46, 81], location = \<lparr>left = 10, top = 20, width = 300, height = 20\<rparr>\<rparr>,
      \<lparr>words = [65, 46], location = \<lparr>left = 40, top = 100, width = 20, height = 20\<rparr>\<rparr>,
      \<lparr>words = [66, 46], location = \<lparr>left = 40, top = 200, width = 20, height = 20\<rparr>\<rparr>,
      \<lparr>words = [67, 46], location = \<lparr>left = 40, top = 300, width = 20, height = 20\<rparr>\<rparr>,
      \<lparr>words = [68, 46], location = \<lparr>left = 40, top = 400, width = 20, height = 20\<rparr>\<rparr>]"

definition page_env :: env where
  "page_env = \<lparr>sleep_overflows = (\<lambda>r. 9223372036 < \<bar>r\<bar>), stop_flag = (\<lambda>t. False), capture_region = (\<lambda>t. None),
     recognize_text = (\<lambda>t. Inr (OcrDict [49, 46, 81] page_words)),
     analyze_question = (\<lambda>t. Inr [66]),
     pyautogui_click = (\<lambda>t. None), pyautogui_moveTo = (\<lambda>t. None),
     pyautogui_scroll = (\<lambda>t. None)\<rparr>"

section \<open>Invariants of the scroll loop\<close>

text \<open>
  \<open>quiet q ms\<close>: the lines \<open>ms\<close> belong to the work on question \<open>q\<close> (or to no question)
  and none of them ends the processing of a question.
\<close>

definition quiet :: "nat \<Rightarrow> log_msg list \<Rightarrow> bool" where
  "quiet q ms = (finished ms = [] \<and> (\<forall>m \<in> set ms. about m = None \<or> about m = Some q))"

text \<open>
  The log invariant of a run that started with the log \<open>base\<close>: what the run has logged
  since is in order, and the questions whose processing it has ended are exactly the
  answered set.
\<close>

definition log_inv :: "log_msg list \<Rightarrow> state \<Rightarrow> bool" where
  "log_inv base st = (\<exists>ms. logged st = base @ ms \<and> in_order {} ms
      \<and> set (finished ms) = answered_questions st)"

text \<open>
  The count invariant: the answered set is finite and holds at most \<open>total_questions\<close>
  ids (none when the target is negative).
\<close>

definition count_inv :: "params \<Rightarrow> state \<Rightarrow> bool" where
  "count_inv P st = (finite (answered_questions st)
      \<and> int (card (answered_questions st)) \<le> max 0 (total_questions P))"

definition run_inv :: "log_msg list \<Rightarrow> params \<Rightarrow> state \<Rightarrow> bool" where
  "run_inv base P st = (log_inv base st \<and> count_inv P st)"

section \<open>A sample session\<close>

text \<open>
  The scroll scenario of the specification: a view of height 1000 with overlap 150 and a
  target of 2; the one window shows the markers \<open>1.\<close> at offset 100 and \<open>2.\<close> at offset 400
  and one option marker \<open>A.\<close>; the oracle answers \<open>A\<close>; nothing fails and nobody stops.
\<close>

definition demo_words :: "word_item list" where
  "demo_words =
     [\<lparr>words = [49, 46], location = \<lparr>left = 10, top = 100, width = 20, height = 20\<rparr>\<rparr>,
      \<lparr>words = [65, 46], location = \<lparr>left = 40, top = 200, width = 20, height = 20\<rparr>\<rparr>,
      \<lparr>words = [50, 46], location = \<lparr>left = 10, top = 400, width = 20, height = 20\<rparr>\<rparr>]"

definition demo_env :: env where
  "demo_env = \<lparr>sleep_overflows = (\<lambda>r. 9223372036 < \<bar>r\<bar>), stop_flag = (\<lambda>t. False), capture_region = (\<lambda>t. None),
     recognize_text = (\<lambda>t. Inr (OcrDict [49, 46, 10, 65, 46, 10, 50, 46] demo_words)),
     analyze_question = (\<lambda>t. Inr [65]),
     pyautogui_click = (\<lambda>t. None), pyautogui_moveTo = (\<lambda>t. None),
     pyautogui_scroll = (\<lambda>t. None)\<rparr>"

definition demo_params :: params where
  "demo_params = \<lparr>region = (0, 0, 800, 1000), option_positions = None, next_button_pos = None,
     interval = Finite 3, total_questions = 2, auto_next = False, scroll_overlap = 150,
     scroll_delay = Finite 1\<rparr>"

text \<open>
  Variants of the sample session: the oracle fails for the first question; the click for
  the first question fails; the recognition fails.
\<close>

definition oracle_fails_once :: env where
  "oracle_fails_once =
     demo_env\<lparr>analyze_question := (\<lambda>t. if t = 4 then Inl (External 3) else Inr [65])\<rparr>"

definition click_fails_once :: env where
  "click_fails_once =
     demo_env\<lparr>pyautogui_click := (\<lambda>t. if t = 5 then Some (External 4) else None)\<rparr>"

definition recognition_fails :: env where
  "recognition_fails = failing_env\<lparr>capture_region := (\<lambda>t. None)\<rparr>"

text \<open>
  A main window ready for a fixed-page session with the basic recognition mode, all
  credentials of that mode and the region set, but no option positions marked.
\<close>

definition gui_without_positions :: gui where
  "gui_without_positions =
     \<lparr>is_running = False, api_key = True, baidu_basic_api_key = True,
      baidu_basic_secret_key = True, baidu_accurate_api_key = False,
      baidu_accurate_secret_key = False, ocr_mode_var = General_basic,
      gui_region = Some (0, 0, 800, 600), gui_option_positions = None,
      interval_var = Some (Finite 3), total_questions_var = Some 10, auto_next_var = False,
      answering_mode_var = Fixed, scroll_overlap_var = Some 150, scroll_delay_var = Some (Finite 1)\<rparr>"

section \<open>Properties of the scroll distance\<close>

lemmas ch_defs = ch_dot_def ch_comma_def ch_lparen_def ch_rparen_def ch_dun_def
  ch_flparen_def ch_frparen_def ch_dui_def ch_cuo_def

lemma fold_max_Max: "fold max xs (x::int) = Max (insert x (set xs))"
proof (induction xs arbitrary: x)
  case Nil
  show ?case by simp
next
  case (Cons y ys)
  have "fold max (y # ys) x = Max (insert (max y x) (set ys))"
    using Cons.IH [of "max y x"] by simp
  also have "\<dots> = Max (insert x (insert y (set ys)))"
  proof (cases "set ys = {}")
    case True
    then show ?thesis by (simp add: max.commute)
  next
    case False
    then show ?thesis by (simp add: max.assoc max.commute max.left_commute)
  qed
  finally show ?case by simp
qed

lemma py_max_Max: "xs \<noteq> [] \<Longrightarrow> py_max xs = Some (Max (set xs))"
  by (cases xs) (simp_all add: fold_max_Max)

lemma ran_map_of_distinct:
  "distinct (map fst al) \<Longrightarrow> ran (map_of al) = snd ` set al"
proof (induction al)
  case Nil
  show ?case by simp
next
  case (Cons p ps)
  obtain k v where p: "p = (k, v)" by (cases p)
  from Cons.prems p have notin: "map_of ps k = None"
    by (simp add: map_of_eq_None_iff)
  from Cons.prems have IH: "ran (map_of ps) = snd ` set ps"
    using Cons.IH by simp
  have "map_of (p # ps) = (map_of ps)(k \<mapsto> v)"
    using p by simp
  then have lhs: "ran (map_of (p # ps)) = insert v (ran (map_of ps))"
    using notin by (simp only: ran_map_upd)
  have rhs: "snd ` set (p # ps) = insert v (snd ` set ps)"
    using p by simp
  show ?case
    by (simp only: lhs rhs IH)
qed

text \<open>
  C1. \<open>_calculate_scroll_distance\<close> always returns, and its result is the reference
  \<open>chooseScrollDistance\<close> of the map that the dictionary denotes: \<open>h - o\<close> for no positions,
  otherwise \<open>max (lastY - o) (h div 2)\<close> clamped to at most \<open>h - o\<close>, with \<open>lastY\<close> the largest
  \<open>y\<close> and \<open>h div 2\<close> rounding down.
\<close>

theorem calculate_scroll_distance_refines:
  assumes "distinct (map fst qn)" and "0 \<le> o'" and "o' < h"
  shows "calculate_scroll_distance qn h o' = Some (chooseScrollDistance (map_of qn) h o')
       \<and> (qn = [] \<longrightarrow> calculate_scroll_distance qn h o' = Some (h - o'))
       \<and> (qn \<noteq> [] \<longrightarrow> calculate_scroll_distance qn h o' =
             Some (min (max (Max (snd ` set qn) - o') (h div 2)) (h - o')))"
proof (cases "qn = []")
  case True
  then show ?thesis
    by (simp add: calculate_scroll_distance_def chooseScrollDistance_def)
next
  case False
  then have ne: "map snd qn \<noteq> []" by simp
  have code: "calculate_scroll_distance qn h o' =
      Some (min (max (Max (snd ` set qn) - o') (h div 2)) (h - o'))"
    using False py_max_Max [OF ne] by (simp add: calculate_scroll_distance_def Let_def)
  from False obtain p ps where "qn = p # ps" by (cases qn) auto
  then have "map_of qn (fst p) \<noteq> None" by (cases p) simp
  then have nonempty: "map_of qn \<noteq> Map.empty" by auto
  have "chooseScrollDistance (map_of qn) h o' =
      min (max (Max (snd ` set qn) - o') (h div 2)) (h - o')"
    using nonempty ran_map_of_distinct [OF assms(1)] by (simp add: chooseScrollDistance_def)
  with code False show ?thesis by simp
qed

theorem calculate_scroll_distance_refines_witness:
  "calculate_scroll_distance [(1, 100), (2, 400)] 1000 150 = Some 500
   \<and> calculate_scroll_distance [(1, 100), (2, 900)] 1000 150 = Some 750
   \<and> calculate_scroll_distance [] 1000 150 = Some 850
   \<and> chooseScrollDistance (map_of [(1::nat, 100::int), (2, 900)]) 1000 150 = 750"
  using calculate_scroll_distance_refines [of "[(1, 100), (2, 900)]" 150 1000]
    calculate_scroll_distance_refines [of "[(1, 100), (2, 400)]" 150 1000]
    calculate_scroll_distance_refines [of "[]" 150 1000]
  by (simp add: calculate_scroll_distance_def)

text \<open>
  C2, as stated, fails: with an overlap larger than half the view height the final clamp
  wins over the half-height floor. For a view of height 10 and overlap 8 a question at
  offset 0 gives 2, which is below \<open>10 div 2\<close>.
\<close>

theorem scroll_distance_floor_counterexample:
  "(0::int) \<le> 8 \<and> (8::int) < 10 \<and> [(1::nat, 0::int)] \<noteq> []
   \<and> calculate_scroll_distance [(1, 0)] 10 8 = Some 2 \<and> (2::int) < 10 div 2"
  by (simp add: calculate_scroll_distance_def)

text \<open>
  C2, amended. For \<open>0 \<le> o < h\<close> and a non-empty dictionary the distance is never greater
  than \<open>h - o\<close> and never less than the smaller of \<open>h div 2\<close> and \<open>h - o\<close>; it is never less
  than \<open>h div 2\<close> whenever the overlap leaves room for it (\<open>h div 2 \<le> h - o\<close>).
\<close>

theorem scroll_distance_bounds:
  assumes "qn \<noteq> []" and "0 \<le> o'" and "o' < h"
  shows "\<exists>d. calculate_scroll_distance qn h o' = Some d
           \<and> d \<le> h - o' \<and> min (h div 2) (h - o') \<le> d
           \<and> (h div 2 \<le> h - o' \<longrightarrow> h div 2 \<le> d)"
proof -
  from assms(1) have ne: "map snd qn \<noteq> []" by simp
  show ?thesis
    using assms(1) py_max_Max [OF ne]
    by (auto simp: calculate_scroll_distance_def Let_def)
qed

theorem scroll_distance_bounds_witness:
  "calculate_scroll_distance [(1, 100), (2, 400)] 1000 150 = Some 500
   \<and> (500::int) \<le> 1000 - 150 \<and> (1000::int) div 2 \<le> 500"
  using scroll_distance_bounds [of "[(1, 100), (2, 400)]" 150 1000]
  by (simp add: calculate_scroll_distance_def)

section \<open>Properties of the marker extraction\<close>

lemma dec49: "py_decimal 49 = Some 1"
  by (simp add: py_decimal_def digit_zeros_def)

lemma dec50: "py_decimal 50 = Some 2"
  by (simp add: py_decimal_def digit_zeros_def)

lemma dec_nondigit: "py_decimal 46 = None" "py_decimal 32 = None" "py_decimal 65 = None"
  by (simp_all add: py_decimal_def digit_zeros_def)

lemmas question_eval = extract_question_numbers_def question_item_def set_question_def
  set_question_if_new_def match_fmt1_def match_fmt2_def match_fmt3_def match_fmt4_def
  match_fmt5_def digits_then_def at_end_def is_digit_def py_int_def strip_def py_isspace_def
  ch_defs Let_def dec49 dec50 dec_nondigit

lemmas option_eval = extract_option_positions_def option_item_def matched_marker_def
  marker_matches_def option_markers_def startswith_def center_def strip_def py_isspace_def
  ch_defs

lemmas answer_eval = parse_answer_def strip_def py_isspace_def ch_defs

lemma int_digits_Some: "list_all is_digit g \<Longrightarrow> \<exists>n. int_digits acc g = Some n"
  by (induction g arbitrary: acc) (auto simp: is_digit_def split: option.splits)

lemma digits_then_digits:
  assumes "digits_then delims anchored text = Some g"
  shows "g \<noteq> [] \<and> list_all is_digit g"
proof -
  from assms have g: "g = takeWhile is_digit text" and ne: "takeWhile is_digit text \<noteq> []"
    by (auto simp: digits_then_def Let_def split: if_splits list.splits)
  have "list_all is_digit (takeWhile is_digit text)"
    by (simp add: list_all_iff) (metis set_takeWhileD)
  with g ne show ?thesis by simp
qed

lemma py_int_group:
  assumes "digits_then delims anchored text = Some g"
  shows "\<exists>n. py_int g = Some n"
  using digits_then_digits [OF assms] int_digits_Some [of g 0] by (simp add: py_int_def)

lemma match_fmt5_int: "match_fmt5 text = Some g \<Longrightarrow> \<exists>n. py_int g = Some n"
  unfolding match_fmt5_def by (rule py_int_group)

lemma exact_group_int: "exact_group text = Some g \<Longrightarrow> \<exists>n. py_int g = Some n"
  unfolding exact_group_def match_fmt1_def match_fmt2_def match_fmt3_def match_fmt4_def
  by (auto split: option.splits list.splits if_splits dest: py_int_group)

lemma question_item_cases:
  "question_item qn item =
     Some (case exact_id item of
             Some n \<Rightarrow> AList.update n (top (location item)) qn
           | None \<Rightarrow>
             (case loose_id item of
                Some n \<Rightarrow> if n \<notin> fst ` set qn then AList.update n (top (location item)) qn else qn
              | None \<Rightarrow> qn))"
proof (cases "exact_group (strip (words item))")
  case (Some g)
  then obtain n where n: "py_int g = Some n" using exact_group_int by blast
  from Some have "question_item qn item = set_question qn g (top (location item))"
    by (auto simp: question_item_def exact_group_def Let_def split: option.splits)
  with Some n show ?thesis by (simp add: exact_id_def set_question_def)
next
  case None
  then have ex: "exact_id item = None" by (simp add: exact_id_def)
  from None have m: "match_fmt1 (strip (words item)) = None" "match_fmt2 (strip (words item)) = None"
     "match_fmt3 (strip (words item)) = None" "match_fmt4 (strip (words item)) = None"
    by (auto simp: exact_group_def split: option.splits)
  show ?thesis
  proof (cases "match_fmt5 (strip (words item))")
    case None5: None
    with None m ex show ?thesis by (simp add: question_item_def loose_id_def Let_def)
  next
    case (Some g)
    then obtain n where n: "py_int g = Some n" using match_fmt5_int by blast
    with None Some m ex show ?thesis
      by (simp add: question_item_def loose_id_def Let_def set_question_if_new_def)
  qed
qed


lemma find_app:
  "find P (xs @ ys) = (case find P xs of None \<Rightarrow> find P ys | Some x \<Rightarrow> Some x)"
  by (induction xs) auto

lemma exact_loose_excl: "exact_id w = Some n \<Longrightarrow> loose_id w = None"
  by (auto simp: exact_id_def loose_id_def split: option.splits)

lemma question_loop_recorded:
  "\<exists>qn. question_loop acc ws = Some qn
      \<and> (distinct (map fst acc) \<longrightarrow> distinct (map fst qn))
      \<and> (\<forall>n. map_of qn n = recorded ws n (map_of acc n))"
proof (induction ws arbitrary: acc)
  case Nil
  show ?case by (simp add: recorded_def split: option.splits)
next
  case (Cons w ws)
  define acc' where "acc' = (case exact_id w of
             Some n \<Rightarrow> AList.update n (top (location w)) acc
           | None \<Rightarrow>
             (case loose_id w of
                Some n \<Rightarrow> if n \<notin> fst ` set acc then AList.update n (top (location w)) acc else acc
              | None \<Rightarrow> acc))"
  have step: "question_item acc w = Some acc'"
    by (simp add: question_item_cases acc'_def)
  from Cons.IH [of acc'] obtain qn where qn: "question_loop acc' ws = Some qn"
    and d: "distinct (map fst acc') \<longrightarrow> distinct (map fst qn)"
    and r: "\<forall>n. map_of qn n = recorded ws n (map_of acc' n)" by blast
  have d': "distinct (map fst acc) \<Longrightarrow> distinct (map fst acc')"
    by (auto simp: acc'_def distinct_update split: option.splits)
  have "recorded ws n (map_of acc' n) = recorded (w # ws) n (map_of acc n)" for n
  proof (cases "exact_id w")
    case (Some k)
    then have "acc' = AList.update k (top (location w)) acc" by (simp add: acc'_def)
    then have m: "map_of acc' n = (if n = k then Some (top (location w)) else map_of acc n)"
      by (simp add: update_conv')
    from Some have l: "loose_id w = None" by (rule exact_loose_excl)
    show ?thesis using Some m l
      by (auto simp: recorded_def find_app split: option.splits)
  next
    case None
    show ?thesis
    proof (cases "loose_id w")
      case None': None
      with None have "acc' = acc" by (simp add: acc'_def)
      with None None' show ?thesis
        by (auto simp: recorded_def find_app split: option.splits)
    next
      case (Some k)
      with None have m: "map_of acc' n =
          (if n = k \<and> map_of acc k = None then Some (top (location w)) else map_of acc n)"
        by (auto simp: acc'_def update_conv' map_of_eq_None_iff)
      show ?thesis using None Some m
        by (auto simp: recorded_def find_app split: option.splits)
    qed
  qed
  with qn d d' r step show ?case by simp
qed

lemma option_loop_last:
  "map_of (foldl (option_item r) acc ws) m =
     (case find (\<lambda>w. matched_marker w = Some m) (rev ws) of
        Some w \<Rightarrow> Some (center r (location w))
      | None \<Rightarrow> map_of acc m)"
proof (induction ws arbitrary: acc)
  case Nil
  show ?case by simp
next
  case (Cons w ws)
  have "map_of (option_item r acc w) m =
      (if matched_marker w = Some m then Some (center r (location w)) else map_of acc m)"
    by (auto simp: option_item_def update_conv' split: option.splits)
  then show ?case using Cons.IH [of "option_item r acc w"]
    by (auto simp: find_app split: option.splits)
qed


text \<open>
  C3. The claim is that of several words matching the same question id the first one
  determines the recorded offset, whatever the shapes. The code keeps to this only for the
  loose prefix shape, whose branch tests \<open>num not in question_numbers\<close>; the branches of
  the four exact shapes assign without the test. Two words \<open>1.\<close> at offsets 10 and 50
  both match the first shape, and the entry for question 1 ends up with the offset 50 of
  the second word.
\<close>

theorem question_exact_match_overwrites:
  "extract_question_numbers
     [\<lparr>words = [49, 46], location = \<lparr>left = 0, top = 10, width = 20, height = 20\<rparr>\<rparr>,
      \<lparr>words = [49, 46], location = \<lparr>left = 0, top = 50, width = 20, height = 20\<rparr>\<rparr>]
   = Some [(1, 50)]"
  by (simp add: question_eval)

text \<open>
  What \<open>_extract_question_numbers\<close> records in general: it always returns a dictionary,
  and the offset it holds for an id is that of the last word matching the id through one
  of the four exact shapes if there is such a word, and otherwise that of the first word
  matching it through the loose prefix shape.
\<close>

lemma extract_question_numbers_recorded:
  "\<exists>qn. extract_question_numbers ws = Some qn \<and> distinct (map fst qn)
      \<and> (\<forall>n. map_of qn n =
            (case find (\<lambda>w. exact_id w = Some n) (rev ws) of
               Some w \<Rightarrow> Some (top (location w))
             | None \<Rightarrow> map_option (\<lambda>w. top (location w)) (find (\<lambda>w. loose_id w = Some n) ws)))"
proof -
  have "recorded ws n None =
      (case find (\<lambda>w. exact_id w = Some n) (rev ws) of
         Some w \<Rightarrow> Some (top (location w))
       | None \<Rightarrow> map_option (\<lambda>w. top (location w)) (find (\<lambda>w. loose_id w = Some n) ws))" for n
    by (simp add: recorded_def split: option.splits)
  then show ?thesis
    using question_loop_recorded [of "[]" ws] by (simp add: extract_question_numbers_def)
qed

text \<open>
  The loose prefix shape does keep the first match: of two lines that begin with \<open>1.\<close>
  the first one determines the offset.
\<close>

lemma question_loose_match_kept:
  "extract_question_numbers
     [\<lparr>words = [49, 46, 65], location = \<lparr>left = 0, top = 10, width = 20, height = 20\<rparr>\<rparr>,
      \<lparr>words = [49, 46, 65], location = \<lparr>left = 0, top = 50, width = 20, height = 20\<rparr>\<rparr>]
   = Some [(1, 10)]"
  by (simp add: question_eval)

text \<open>
  C4, as stated, fails: two words \<open>A\<close> with different boxes both match label \<open>A\<close>, and
  the point kept is the centre of the second one.
\<close>

theorem option_first_match_counterexample:
  "matched_marker \<lparr>words = [65], location = \<lparr>left = 0, top = 0, width = 10, height = 20\<rparr>\<rparr>
     = Some [65]
   \<and> matched_marker \<lparr>words = [65], location = \<lparr>left = 100, top = 200, width = 10, height = 20\<rparr>\<rparr>
     = Some [65]
   \<and> center (0, 0, 800, 600) \<lparr>left = 0, top = 0, width = 10, height = 20\<rparr> = (5, 10)
   \<and> extract_option_positions
       [\<lparr>words = [65], location = \<lparr>left = 0, top = 0, width = 10, height = 20\<rparr>\<rparr>,
        \<lparr>words = [65], location = \<lparr>left = 100, top = 200, width = 10, height = 20\<rparr>\<rparr>]
       (0, 0, 800, 600)
     = [([65], (105, 210))]"
  by (simp add: option_eval)

text \<open>
  C4, amended. If an option label is matched by more than one word in a capture, the point
  kept for it is that of the last matching word (each match overwrites the entry); a label
  matched by no word has no entry. The point kept is the region origin plus the centre of
  the matching word's bounding box, the halves rounded down.
\<close>

theorem extract_option_positions_last:
  "map_of (extract_option_positions ws (x1, y1, x2, y2)) m =
     (case find (\<lambda>w. matched_marker w = Some m) (rev ws) of
        None \<Rightarrow> None
      | Some w \<Rightarrow> Some (x1 + left (location w) + width (location w) div 2,
                         y1 + top (location w) + height (location w) div 2))"
  using option_loop_last [of "(x1, y1, x2, y2)" "[]" ws m]
  by (simp add: extract_option_positions_def center_def split: option.splits)

section \<open>Properties of the answer parser\<close>

lemma parse_answer_examples:
  "parse_answer [65, 44, 67] = [[65], [67]]"
  "parse_answer [32, 97, 32, 44, 32, 99, 32] = [[97], [99]]"
  "parse_answer [] = []"
  "parse_answer [ch_dui] = [[ch_dui]]"
  by (simp_all add: answer_eval)

text \<open>
  C5. The emptiness test of \<open>parse_answer\<close> comes before the \<open>strip\<close>: an answer of two
  blanks is not empty, is stripped to the empty string, holds no comma, and is returned as
  a list of one empty token instead of the empty list.
\<close>

theorem parse_answer_blank:
  "parse_answer [32, 32] = [[]]"
  by (simp add: answer_eval)

section \<open>Properties of the scroll loop\<close>

lemma write_log_simps [simp]:
  "clock (write_log m st) = clock st"
  "answered_questions (write_log m st) = answered_questions st"
  "logged (write_log m st) = logged st @ [m]"
  "actions (write_log m st) = actions st"
  by (simp_all add: write_log_def)

lemma tick_simps [simp]:
  "clock (tick st) = Suc (clock st)"
  "answered_questions (tick st) = answered_questions st"
  "logged (tick st) = logged st"
  "actions (tick st) = actions st"
  by (simp_all add: tick_def)

lemma act_simps [simp]:
  "clock (act a st) = clock st"
  "answered_questions (act a st) = answered_questions st"
  "logged (act a st) = logged st"
  "actions (act a st) = actions st @ [a]"
  by (simp_all add: act_def)

lemma mark_answered_simps [simp]:
  "clock (mark_answered q st) = clock st"
  "answered_questions (mark_answered q st) = insert q (answered_questions st)"
  "logged (mark_answered q st) = logged st"
  "actions (mark_answered q st) = actions st"
  by (simp_all add: mark_answered_def)

lemma read_stop_flag_simps [simp]:
  "fst (read_stop_flag env st) = stop_flag env (clock st)"
  "snd (read_stop_flag env st) = tick st"
  by (simp_all add: read_stop_flag_def)

lemma finished_append: "finished (xs @ ys) = finished xs @ finished ys"
  by (induction xs rule: finished.induct) simp_all

lemma in_order_append:
  "in_order D (xs @ ys) = (in_order D xs \<and> in_order (D \<union> set (finished xs)) ys)"
proof (induction xs arbitrary: D)
  case Nil
  show ?case by simp
next
  case (Cons m ms)
  have "finished (m # ms) = finished [m] @ finished ms"
    using finished_append [of "[m]" ms] by simp
  then show ?case using Cons.IH [of "D \<union> set (finished [m])"]
    by (auto simp: Un_assoc)
qed

lemma quiet_Nil [simp]: "quiet q []" by (simp add: quiet_def)

lemma quiet_append: "quiet q (xs @ ys) = (quiet q xs \<and> quiet q ys)"
  by (auto simp: quiet_def finished_append)

lemma quiet_in_order: "quiet q ms \<Longrightarrow> q \<notin> D \<Longrightarrow> in_order D ms"
proof (induction ms)
  case Nil
  show ?case by simp
next
  case (Cons m ms)
  from Cons.prems(1) have f: "finished [m] = []" and q: "quiet q ms"
    and a: "about m = None \<or> about m = Some q"
    using finished_append [of "[m]" ms] by (auto simp: quiet_def)
  show ?case using f a Cons.IH [OF q Cons.prems(2)] Cons.prems(2) by auto
qed

lemma click_position_fields:
  "click_position env x y st = (r, st') \<Longrightarrow>
     logged st' = logged st \<and> answered_questions st' = answered_questions st"
  by (auto simp: click_position_def split: option.splits)

lemma click_options_quiet:
  assumes "click_options env LogNotFound q pos opts st = (r, st')"
  shows "\<exists>ms. logged st' = logged st @ ms \<and> quiet q ms
           \<and> answered_questions st' = answered_questions st"
  using assms
proof (induction opts arbitrary: st)
  case Nil
  then show ?case by simp
next
  case (Cons opt rest)
  show ?case
  proof (cases pos)
    case None
    with Cons.prems show ?thesis by simp
  next
    case (Some ps)
    show ?thesis
    proof (cases "map_of ps opt")
      case None
      with Some Cons.prems
      have "click_options env LogNotFound q pos rest (write_log (LogNotFound q opt) st) = (r, st')"
        by simp
      from Cons.IH [OF this] obtain ms where
        "logged st' = logged st @ [LogNotFound q opt] @ ms" "quiet q ms"
        "answered_questions st' = answered_questions st" by auto
      then show ?thesis
        by (intro exI [of _ "[LogNotFound q opt] @ ms"]) (simp add: quiet_append, simp add: quiet_def)
    next
      case (Some xy)
      obtain x y where xy: "xy = (x, y)" by (cases xy)
      obtain r1 st1 where cp: "click_position env x y st = (r1, st1)" by (cases "click_position env x y st")
      note f = click_position_fields [OF cp]
      show ?thesis
      proof (cases r1)
        case (Some e)
        with cp xy \<open>map_of ps opt = Some xy\<close> \<open>pos = Some ps\<close> Cons.prems f
        show ?thesis by auto
      next
        case None
        with cp xy \<open>map_of ps opt = Some xy\<close> \<open>pos = Some ps\<close> Cons.prems
        have "click_options env LogNotFound q pos rest (write_log (LogClick q opt x y) st1) = (r, st')"
          by simp
        from Cons.IH [OF this] f obtain ms where
          "logged st' = logged st @ [LogClick q opt x y] @ ms" "quiet q ms"
          "answered_questions st' = answered_questions st" by auto
        then show ?thesis
          by (intro exI [of _ "[LogClick q opt x y] @ ms"]) (simp add: quiet_append, simp add: quiet_def)
      qed
    qed
  qed
qed

lemma answer_question_effect:
  "\<exists>ms. logged (answer_question env P t ws q st) = logged st @ ms
      \<and> answered_questions (answer_question env P t ws q st) = insert q (answered_questions st)
      \<and> set (finished ms) = {q}
      \<and> (q \<notin> D \<longrightarrow> in_order D ms)"
proof (cases "analyze_question env (clock st)")
  case (Inl e)
  then have "answer_question env P t ws q st = mark_answered q (write_log (LogError q e) (tick st))"
    by (simp add: answer_question_def answer_body_def)
  then show ?thesis by simp
next
  case (Inr answer)
  define positions where "positions =
    (case option_positions P of None \<Rightarrow> extract_option_positions ws (region P) | Some pos \<Rightarrow> pos)"
  define st2 where "st2 = write_log (LogParsed q (parse_answer answer))
                            (write_log (LogAI q answer) (tick st))"
  obtain r st3 where co:
    "click_options env LogNotFound q (Some positions) (parse_answer answer) st2 = (r, st3)"
    by (cases "click_options env LogNotFound q (Some positions) (parse_answer answer) st2")
  from click_options_quiet [OF co] obtain cms where
    l3: "logged st3 = logged st @ [LogAI q answer, LogParsed q (parse_answer answer)] @ cms"
    and qc: "quiet q cms" and a3: "answered_questions st3 = answered_questions st"
    by (auto simp: st2_def)
  have pre: "quiet q ([LogAI q answer, LogParsed q (parse_answer answer)] @ cms)"
    using qc by (simp add: quiet_append) (simp add: quiet_def)
  define pre_ms where "pre_ms = [LogAI q answer, LogParsed q (parse_answer answer)] @ cms"
  have fp: "finished pre_ms = []" and ip: "q \<notin> D \<longrightarrow> in_order D pre_ms"
    using pre quiet_in_order [of q pre_ms D] by (auto simp: pre_ms_def quiet_def)
  have body: "answer_body env P t ws q st =
      (case r of
         Some e \<Rightarrow> (Some e, st3)
       | None \<Rightarrow>
           (case read_stop_flag env (write_log (LogDone q) (mark_answered q st3)) of
              (True, st5) \<Rightarrow> (None, st5)
            | (False, st5) \<Rightarrow> (py_sleep env (interval P), st5)))"
    using Inr co by (simp add: answer_body_def positions_def st2_def Let_def)
  show ?thesis
  proof (cases r)
    case (Some e)
    with body have "answer_question env P t ws q st = mark_answered q (write_log (LogError q e) st3)"
      by (simp add: answer_question_def)
    then have "logged (answer_question env P t ws q st) = logged st @ (pre_ms @ [LogError q e])"
      and "answered_questions (answer_question env P t ws q st) = insert q (answered_questions st)"
      using l3 a3 by (simp_all add: pre_ms_def)
    moreover have "set (finished (pre_ms @ [LogError q e])) = {q}"
      using fp by (simp add: finished_append)
    moreover have "q \<notin> D \<longrightarrow> in_order D (pre_ms @ [LogError q e])"
      using ip fp by (simp add: in_order_append)
    ultimately show ?thesis by blast
  next
    case None
    define st4 where "st4 = tick (write_log (LogDone q) (mark_answered q st3))"
    have l4: "logged st4 = logged st @ (pre_ms @ [LogDone q])"
      and a4: "answered_questions st4 = insert q (answered_questions st)"
      using l3 a3 by (simp_all add: st4_def pre_ms_def)
    have b: "answer_body env P t ws q st =
        (if stop_flag env (clock (write_log (LogDone q) (mark_answered q st3))) then (None, st4)
         else (py_sleep env (interval P), st4))"
      using body None by (simp add: read_stop_flag_def st4_def)
    have res: "answer_question env P t ws q st = st4
        \<or> (\<exists>e'. answer_question env P t ws q st
                = mark_answered q (write_log (LogError q e') st4))"
      using b by (cases "py_sleep env (interval P)") (auto simp: answer_question_def)
    have f1: "set (finished (pre_ms @ [LogDone q])) = {q}"
      and f2: "set (finished (pre_ms @ [LogDone q, LogError q e'])) = {q}" for e'
      using fp by (simp_all add: finished_append)
    have i1: "q \<notin> D \<longrightarrow> in_order D (pre_ms @ [LogDone q])"
      and i2: "q \<notin> D \<longrightarrow> in_order D (pre_ms @ [LogDone q, LogError q e'])" for e'
      using ip fp by (simp_all add: in_order_append)
    from res show ?thesis
    proof
      assume "answer_question env P t ws q st = st4"
      with l4 a4 f1 i1 show ?thesis by metis
    next
      assume "\<exists>e'. answer_question env P t ws q st
                = mark_answered q (write_log (LogError q e') st4)"
      then obtain e' where
        r2: "answer_question env P t ws q st = mark_answered q (write_log (LogError q e') st4)"
        by blast
      then have "logged (answer_question env P t ws q st)
          = logged st @ (pre_ms @ [LogDone q, LogError q e'])"
        and "answered_questions (answer_question env P t ws q st) = insert q (answered_questions st)"
        using l4 a4 by simp_all
      with f2 [of e'] i2 [of e'] show ?thesis by blast
    qed
  qed
qed

lemma log_inv_tick [simp]: "log_inv base (tick st) = log_inv base st"
  by (simp add: log_inv_def)

lemma log_inv_write_log:
  assumes "about m = None" and "finished [m] = []" and "log_inv base st"
  shows "log_inv base (write_log m st)"
proof -
  from assms(3) obtain ms where "logged st = base @ ms" "in_order {} ms"
    "set (finished ms) = answered_questions st" by (auto simp: log_inv_def)
  with assms(1,2) have "logged (write_log m st) = base @ (ms @ [m])"
    "in_order {} (ms @ [m])" "set (finished (ms @ [m])) = answered_questions (write_log m st)"
    by (simp_all add: in_order_append finished_append)
  then show ?thesis unfolding log_inv_def by blast
qed

lemma answer_question_answered:
  "answered_questions (answer_question env P t ws q st) = insert q (answered_questions st)"
  using answer_question_effect [of env P t ws q st "{}"] by blast

lemma answer_question_inv:
  assumes "log_inv base st" and "q \<notin> answered_questions st"
  shows "log_inv base (answer_question env P t ws q st)"
proof -
  from assms(1) obtain ms0 where b: "logged st = base @ ms0" "in_order {} ms0"
    "set (finished ms0) = answered_questions st" by (auto simp: log_inv_def)
  from answer_question_effect [of env P t ws q st "answered_questions st"] assms(2)
  obtain ms where m: "logged (answer_question env P t ws q st) = logged st @ ms"
    "set (finished ms) = {q}" "in_order (answered_questions st) ms" by blast
  have "logged (answer_question env P t ws q st) = base @ (ms0 @ ms)"
    using b m by simp
  moreover have "in_order {} (ms0 @ ms)"
    using b m by (simp add: in_order_append)
  moreover have "set (finished (ms0 @ ms)) = answered_questions (answer_question env P t ws q st)"
    using b m by (auto simp: finished_append answer_question_answered)
  ultimately show ?thesis unfolding log_inv_def by blast
qed

lemma answer_window_Cons:
  "answer_window env P t ws (q # rest) st =
     (if stop_flag env (clock st) \<or> total_questions P \<le> int (card (answered_questions st))
      then tick st
      else answer_window env P t ws rest (answer_question env P t ws q (tick st)))"
  by (simp add: read_stop_flag_def split: bool.splits)

declare answer_window.simps(2) [simp del]

lemma answer_window_inv:
  assumes "log_inv base st" and "distinct qs" and "set qs \<inter> answered_questions st = {}"
  shows "log_inv base (answer_window env P t ws qs st)"
  using assms
proof (induction qs arbitrary: st)
  case Nil
  then show ?case by simp
next
  case (Cons q rest)
  let ?st1 = "tick st"
  let ?st2 = "answer_question env P t ws q ?st1"
  have i1: "log_inv base ?st1" using Cons.prems(1) by simp
  from Cons.prems(3) have q: "q \<notin> answered_questions ?st1" by simp
  have i2: "log_inv base ?st2" by (rule answer_question_inv [OF i1 q])
  have d: "set rest \<inter> answered_questions ?st2 = {}"
    using Cons.prems(2,3) by (auto simp: answer_question_answered)
  from Cons.prems(2) have dr: "distinct rest" by simp
  have "log_inv base (answer_window env P t ws rest ?st2)"
    by (rule Cons.IH [OF i2 dr d])
  with i1 show ?case by (simp add: answer_window_Cons)
qed

lemma answer_window_mono:
  "answered_questions st \<subseteq> answered_questions (answer_window env P t ws qs st)"
proof (induction qs arbitrary: st)
  case Nil
  show ?case by simp
next
  case (Cons q rest)
  have "answered_questions (tick st)
      \<subseteq> answered_questions (answer_window env P t ws rest (answer_question env P t ws q (tick st)))"
    using Cons.IH [of "answer_question env P t ws q (tick st)"]
    by (auto simp: answer_question_answered)
  then show ?case by (auto simp: answer_window_Cons)
qed

lemma answer_window_count:
  assumes "count_inv P st"
  shows "count_inv P (answer_window env P t ws qs st)"
  using assms
proof (induction qs arbitrary: st)
  case Nil
  then show ?case by simp
next
  case (Cons q rest)
  show ?case
  proof (cases "stop_flag env (clock st) \<or> total_questions P \<le> int (card (answered_questions st))")
    case True
    with Cons.prems show ?thesis by (auto simp: answer_window_Cons count_inv_def)
  next
    case False
    then have lt: "int (card (answered_questions st)) < total_questions P" by simp
    from Cons.prems have fin: "finite (answered_questions st)" by (simp add: count_inv_def)
    have "card (insert q (answered_questions st)) \<le> Suc (card (answered_questions st))"
      using fin by (simp add: card_insert_if)
    with lt fin have "count_inv P (answer_question env P t ws q (tick st))"
      by (simp add: count_inv_def answer_question_answered)
    from Cons.IH [OF this] False show ?thesis by (simp add: answer_window_Cons)
  qed
qed

lemma run_inv_tick [simp]: "run_inv base P (tick st) = run_inv base P st"
  by (simp add: run_inv_def count_inv_def)

lemma run_inv_act [simp]: "run_inv base P (act a st) = run_inv base P st"
  by (simp add: run_inv_def count_inv_def log_inv_def)

lemma run_inv_write_log:
  "about m = None \<Longrightarrow> finished [m] = [] \<Longrightarrow> run_inv base P st \<Longrightarrow> run_inv base P (write_log m st)"
  by (simp add: run_inv_def count_inv_def log_inv_write_log)

lemma scroll_page_effect:
  assumes "scroll_page env d c delay st = (r, st')"
  shows "answered_questions st' = answered_questions st
       \<and> (run_inv base P st \<longrightarrow> run_inv base P st')"
  using assms
  by (auto simp: scroll_page_def Let_def run_inv_write_log split: option.splits if_splits)

lemma scroll_step_effect:
  assumes "scroll_step env P d st = (s, st')"
  shows "answered_questions st' = answered_questions st
       \<and> (run_inv base P st \<longrightarrow> run_inv base P st')
       \<and> (s = Continue \<or> (\<exists>e. s = Raised e))"
proof (cases d)
  case None
  with assms show ?thesis by (auto simp: scroll_step_def)
next
  case (Some dist)
  obtain r st1 where sp: "scroll_page env dist (scroll_center (region P)) (scroll_delay P) st = (r, st1)"
    by (cases "scroll_page env dist (scroll_center (region P)) (scroll_delay P) st")
  from scroll_page_effect [OF sp, of base P] Some sp assms show ?thesis
    by (auto simp: scroll_step_def split: option.splits)
qed

lemma answer_window_run_inv:
  assumes "run_inv base P st" and "distinct qs" and "set qs \<inter> answered_questions st = {}"
  shows "run_inv base P (answer_window env P t ws qs st)"
  using assms answer_window_inv [of base st qs env P t ws] answer_window_count [of P st env t ws qs]
  by (simp add: run_inv_def)

lemma scroll_window_effect:
  assumes "scroll_window env P t ws qn st = (s, st')" and "distinct (map fst qn)"
  shows "(run_inv base P st \<longrightarrow> run_inv base P st')
       \<and> answered_questions st \<subseteq> answered_questions st'
       \<and> (s = Continue \<or> (\<exists>e. s = Raised e))"
proof -
  define st1 where "st1 = write_log (LogNumbers (sort (map fst qn))) st"
  have i1: "run_inv base P st \<Longrightarrow> run_inv base P st1"
    and a1: "answered_questions st1 = answered_questions st"
    by (simp_all add: st1_def run_inv_write_log)
  define unanswered where
    "unanswered = filter (\<lambda>q. q \<notin> answered_questions st1) (sort (map fst qn))"
  have du: "distinct unanswered" using assms(2) by (simp add: unanswered_def)
  have su: "set unanswered \<inter> answered_questions st1 = {}" by (auto simp: unanswered_def)
  show ?thesis
  proof (cases "qn = []")
    case True
    with assms(1) have "scroll_step env P (Some (region_height (region P) - scroll_overlap P))
        (write_log LogNoNumbers st1) = (s, st')"
      by (simp add: scroll_window_def st1_def)
    from scroll_step_effect [OF this, of base] i1 a1 show ?thesis
      by (simp add: run_inv_write_log)
  next
    case False
    show ?thesis
    proof (cases "unanswered = []")
      case True
      with False assms(1) have "scroll_step env P
          (calculate_scroll_distance qn (region_height (region P)) (scroll_overlap P))
          (write_log LogAllAnswered st1) = (s, st')"
        by (simp add: scroll_window_def st1_def unanswered_def Let_def)
      from scroll_step_effect [OF this, of base] i1 a1 show ?thesis
        by (simp add: run_inv_write_log)
    next
      case nonempty: False
      define st2 where "st2 = answer_window env P t ws unanswered st1"
      have i2: "run_inv base P st \<Longrightarrow> run_inv base P st2"
        unfolding st2_def using answer_window_run_inv [OF i1 du su] by simp
      have m2: "answered_questions st \<subseteq> answered_questions st2"
        using answer_window_mono [of st1 env P t ws unanswered] a1 by (simp add: st2_def)
      have w: "scroll_window env P t ws qn st =
          (if int (card (answered_questions st2)) < total_questions P then
             scroll_step env P
               (calculate_scroll_distance qn (region_height (region P)) (scroll_overlap P)) st2
           else (Continue, st2))"
        using False nonempty
        by (simp add: scroll_window_def st1_def [symmetric] unanswered_def [symmetric]
            st2_def [symmetric] Let_def)
      show ?thesis
      proof (cases "int (card (answered_questions st2)) < total_questions P")
        case True
        with w assms(1) have "scroll_step env P
            (calculate_scroll_distance qn (region_height (region P)) (scroll_overlap P)) st2
            = (s, st')" by simp
        from scroll_step_effect [OF this, of base] i2 m2 show ?thesis by simp
      next
        case False
        with w assms(1) i2 m2 show ?thesis by auto
      qed
    qed
  qed
qed

lemma extract_question_numbers_distinct:
  "extract_question_numbers ws = Some qn \<Longrightarrow> distinct (map fst qn)"
  using question_loop_recorded [of "[]" ws] by (auto simp: extract_question_numbers_def)

lemma scroll_recognize_effect:
  assumes "scroll_recognize env P st = (s, st')"
  shows "(run_inv base P st \<longrightarrow> run_inv base P st')
       \<and> answered_questions st \<subseteq> answered_questions st'
       \<and> s \<noteq> Completed \<and> s \<noteq> OutOfFuel \<and> s \<noteq> Stopped"
proof (cases "recognize_text env (clock st)")
  case (Inl e)
  with assms show ?thesis by (auto simp: scroll_recognize_def run_inv_write_log)
next
  case (Inr res)
  show ?thesis
  proof (cases res)
    case (OcrStr body)
    with Inr assms show ?thesis by (auto simp: scroll_recognize_def run_inv_write_log)
  next
    case (OcrDict body ws)
    show ?thesis
    proof (cases "extract_question_numbers ws")
      case None
      with OcrDict Inr assms show ?thesis by (auto simp: scroll_recognize_def)
    next
      case (Some qn)
      with OcrDict Inr assms(1) have sw: "scroll_window env P body ws qn (tick st) = (s, st')"
        by (simp add: scroll_recognize_def)
      from scroll_window_effect [OF sw extract_question_numbers_distinct [OF Some], of base]
      show ?thesis by auto
    qed
  qed
qed

lemma scroll_iteration_effect:
  assumes "scroll_iteration env P mode st = (s, mode', st')"
  shows "(run_inv base P st \<longrightarrow> run_inv base P st')
       \<and> answered_questions st \<subseteq> answered_questions st'
       \<and> s \<noteq> Completed \<and> s \<noteq> OutOfFuel"
proof (cases "stop_flag env (clock st)")
  case True
  with assms show ?thesis
    by (auto simp: scroll_iteration_def read_stop_flag_def run_inv_write_log)
next
  case False
  note nostop = this
  show ?thesis
  proof (cases "capture_region env (clock (tick st))")
    case (Some e)
    with nostop assms show ?thesis
      by (auto simp: scroll_iteration_def read_stop_flag_def run_inv_write_log)
  next
    case None
    define st2 where "st2 = write_log (LogCaptureOk (card (answered_questions (tick st)))
              (total_questions P)) (tick (tick st))"
    define st3 where "st3 = (if mode \<noteq> Accurate_basic then write_log LogOcrWarn st2 else st2)"
    have i3: "run_inv base P st \<Longrightarrow> run_inv base P st3"
      and a3: "answered_questions st3 = answered_questions st"
      by (simp_all add: st3_def st2_def run_inv_write_log)
    obtain s4 st4 where sr: "scroll_recognize env P st3 = (s4, st4)"
      by (cases "scroll_recognize env P st3")
    have "scroll_iteration env P mode st = (s4, Accurate_basic, st4)"
      using nostop None sr
      by (cases "mode = Accurate_basic")
        (simp_all add: scroll_iteration_def read_stop_flag_def Let_def st2_def st3_def)
    with assms(1) have "s = s4" "st' = st4" by simp_all
    with scroll_recognize_effect [OF sr, of base] i3 a3 show ?thesis by auto
  qed
qed

lemma scroll_while_effect:
  assumes "scroll_while fuel env P mode st = (s, st')"
  shows "(run_inv base P st \<longrightarrow> run_inv base P st')
       \<and> answered_questions st \<subseteq> answered_questions st'
       \<and> s \<noteq> Continue
       \<and> (s = Completed \<longrightarrow> total_questions P \<le> int (card (answered_questions st')))"
  using assms
proof (induction fuel arbitrary: mode st)
  case 0
  then show ?case by auto
next
  case (Suc fuel)
  show ?case
  proof (cases "int (card (answered_questions st)) < total_questions P")
    case False
    with Suc.prems show ?thesis by auto
  next
    case True
    obtain s1 mode1 st1 where it: "scroll_iteration env P mode st = (s1, mode1, st1)"
      by (cases "scroll_iteration env P mode st")
    from scroll_iteration_effect [OF it, of base]
    have i1: "run_inv base P st \<longrightarrow> run_inv base P st1"
      and m1: "answered_questions st \<subseteq> answered_questions st1"
      and s1: "s1 \<noteq> Completed" "s1 \<noteq> OutOfFuel" by auto
    show ?thesis
    proof (cases "s1 = Continue")
      case True
      with \<open>int (card (answered_questions st)) < total_questions P\<close> it Suc.prems(1)
      have "scroll_while fuel env P mode1 st1 = (s, st')" by simp
      from Suc.IH [OF this] i1 m1 show ?thesis by auto
    next
      case False
      with \<open>int (card (answered_questions st)) < total_questions P\<close> it Suc.prems(1)
      have "s = s1" "st' = st1" by (cases s1; simp)+
      with i1 m1 s1 False show ?thesis by auto
    qed
  qed
qed

lemma scroll_while_more_fuel:
  "answered_questions (snd (scroll_while n env P mode st))
     \<subseteq> answered_questions (snd (scroll_while (n + k) env P mode st))"
proof (induction n arbitrary: mode st)
  case 0
  obtain s st' where r: "scroll_while k env P mode st = (s, st')"
    by (cases "scroll_while k env P mode st")
  from scroll_while_effect [OF r, of "[]"] r show ?case by simp
next
  case (Suc n)
  show ?case
  proof (cases "int (card (answered_questions st)) < total_questions P")
    case False
    then show ?thesis by simp
  next
    case True
    obtain s1 mode1 st1 where it: "scroll_iteration env P mode st = (s1, mode1, st1)"
      by (cases "scroll_iteration env P mode st")
    show ?thesis
    proof (cases "s1 = Continue")
      case c: True
      with True it Suc.IH [of mode1 st1] show ?thesis by simp
    next
      case False
      with True it show ?thesis by (cases s1; simp)
    qed
  qed
qed

lemma start_run_inv:
  "run_inv (logged st0) P ((write_log LogStartScroll st0)\<lparr>answered_questions := {}\<rparr>)"
proof -
  have "logged ((write_log LogStartScroll st0)\<lparr>answered_questions := {}\<rparr>)
      = logged st0 @ [LogStartScroll]" by simp
  moreover have "in_order {} [LogStartScroll]" by simp
  moreover have "set (finished [LogStartScroll])
      = answered_questions ((write_log LogStartScroll st0)\<lparr>answered_questions := {}\<rparr>)" by simp
  ultimately have "log_inv (logged st0) ((write_log LogStartScroll st0)\<lparr>answered_questions := {}\<rparr>)"
    unfolding log_inv_def by blast
  then show ?thesis by (simp add: run_inv_def count_inv_def)
qed

lemma answering_loop_scroll_mode_inv:
  assumes "answering_loop_scroll_mode fuel env P mode st0 = (s, st')"
  shows "run_inv (logged st0) P st'
       \<and> (s = Completed \<longrightarrow> total_questions P \<le> int (card (answered_questions st')))"
proof -
  define st_init where "st_init = (write_log LogStartScroll st0)\<lparr>answered_questions := {}\<rparr>"
  obtain s1 st1 where w: "scroll_while fuel env P mode st_init = (s1, st1)"
    by (cases "scroll_while fuel env P mode st_init")
  from scroll_while_effect [OF w, of "logged st0"] start_run_inv [of st0 P]
  have i1: "run_inv (logged st0) P st1"
    and c1: "s1 = Completed \<longrightarrow> total_questions P \<le> int (card (answered_questions st1))"
    by (auto simp: st_init_def)
  have i2: "run_inv (logged st0) P (write_log (LogComplete n) (tick st1))" for n
    using i1 by (simp add: run_inv_write_log)
  have "(s = s1 \<and> (st' = st1 \<or> st' = tick st1
          \<or> st' = write_log (LogComplete (int (card (answered_questions (tick st1))))) (tick st1)))"
    using assms w
    by (cases s1) (auto simp: answering_loop_scroll_mode_def st_init_def [symmetric]
        read_stop_flag_def split: bool.splits if_splits)
  with i1 i2 c1 show ?thesis by auto
qed

lemmas loop_eval = answering_loop_scroll_mode_def scroll_iteration_def scroll_recognize_def
  scroll_window_def scroll_step_def scroll_page_def answer_window_Cons answer_question_def
  answer_body_def click_position_def read_stop_flag_def write_log_def tick_def act_def
  mark_answered_def py_sleep_def initial_state_def region_height_def scroll_center_def
  calculate_scroll_distance_def Let_def

lemma demo_questions: "extract_question_numbers demo_words = Some [(1, 100), (2, 400)]"
  by (simp add: demo_words_def question_eval)

lemma demo_options: "extract_option_positions demo_words (0, 0, 800, 1000) = [([65], (50, 210))]"
  by (simp add: demo_words_def option_eval)

lemma demo_run:
  "answering_loop_scroll_mode (Suc (Suc 0)) demo_env demo_params General_basic initial_state =
     (Completed,
      \<lparr>clock = 12, answered_questions = {2, 1},
       logged = [LogStartScroll, LogCaptureOk 0 2, LogOcrWarn, LogNumbers [1, 2],
          LogAI 1 [65], LogParsed 1 [[65]], LogClick 1 [65] 50 210, LogDone 1,
          LogAI 2 [65], LogParsed 2 [[65]], LogClick 2 [65] 50 210, LogDone 2,
          LogComplete 2],
       actions = [Click 50 210, Click 50 210]\<rparr>)"
  by (simp add: loop_eval demo_env_def demo_params_def demo_questions demo_options answer_eval)

text \<open>
  C6. In every scroll-mode run the answered set only grows: a pass of the loop never
  removes an id, and a longer run has a superset of the ids of a shorter one. And no
  question is worked on again once it is answered: replaying what the run has logged, no
  oracle answer, parsed answer, click, missing-option warning or completion line of a
  question comes after a line that ended the processing of that question, and the questions
  so ended are exactly the answered set.
\<close>

theorem scroll_answered_once:
  "(\<forall>n k st. answered_questions (snd (scroll_while n env P mode st))
        \<subseteq> answered_questions (snd (scroll_while (n + k) env P mode st)))
   \<and> (\<forall>n st. answered_questions st \<subseteq> answered_questions (snd (scroll_while n env P mode st)))
   \<and> (\<exists>ms. logged (snd (answering_loop_scroll_mode fuel env P mode st0)) = logged st0 @ ms
          \<and> in_order {} ms
          \<and> set (finished ms)
              = answered_questions (snd (answering_loop_scroll_mode fuel env P mode st0)))"
proof -
  have a: "answered_questions (snd (scroll_while n env P mode st))
        \<subseteq> answered_questions (snd (scroll_while (n + k) env P mode st))" for n k st
    by (rule scroll_while_more_fuel)
  have b: "answered_questions st \<subseteq> answered_questions (snd (scroll_while n env P mode st))" for n st
  proof -
    obtain s st' where r: "scroll_while n env P mode st = (s, st')"
      by (cases "scroll_while n env P mode st")
    from scroll_while_effect [OF r, of "[]"] r show ?thesis by simp
  qed
  obtain s st' where r: "answering_loop_scroll_mode fuel env P mode st0 = (s, st')"
    by (cases "answering_loop_scroll_mode fuel env P mode st0")
  from answering_loop_scroll_mode_inv [OF r] have "log_inv (logged st0) st'"
    by (simp add: run_inv_def)
  with r have c: "\<exists>ms. logged (snd (answering_loop_scroll_mode fuel env P mode st0)) = logged st0 @ ms
          \<and> in_order {} ms
          \<and> set (finished ms)
              = answered_questions (snd (answering_loop_scroll_mode fuel env P mode st0))"
    by (simp add: log_inv_def)
  from a b c show ?thesis by blast
qed

theorem scroll_answered_once_witness:
  "\<exists>ms. logged (snd (answering_loop_scroll_mode (Suc (Suc 0)) demo_env demo_params
              General_basic initial_state)) = [] @ ms
      \<and> in_order {} ms \<and> set (finished ms) = {2, 1}"
  using scroll_answered_once [of demo_env demo_params General_basic "Suc (Suc 0)" initial_state]
  by (simp add: demo_run) (simp add: initial_state_def)

text \<open>
  C10. For a target that is not negative, the answered set of a scroll-mode run never
  holds more than \<open>total_questions\<close> ids, whatever the bound on the passes, and a run
  whose loop ends through its \<open>while\<close> condition has answered exactly \<open>total_questions\<close>.
\<close>

theorem scroll_answered_bounded:
  assumes "0 \<le> total_questions P"
  shows "finite (answered_questions (snd (answering_loop_scroll_mode fuel env P mode st0)))
       \<and> int (card (answered_questions (snd (answering_loop_scroll_mode fuel env P mode st0))))
           \<le> total_questions P
       \<and> (fst (answering_loop_scroll_mode fuel env P mode st0) = Completed \<longrightarrow>
            int (card (answered_questions (snd (answering_loop_scroll_mode fuel env P mode st0))))
              = total_questions P)"
proof -
  obtain s st' where r: "answering_loop_scroll_mode fuel env P mode st0 = (s, st')"
    by (cases "answering_loop_scroll_mode fuel env P mode st0")
  from answering_loop_scroll_mode_inv [OF r] assms r show ?thesis
    by (auto simp: run_inv_def count_inv_def)
qed

theorem scroll_answered_bounded_witness:
  "0 \<le> total_questions demo_params
   \<and> fst (answering_loop_scroll_mode (Suc (Suc 0)) demo_env demo_params General_basic
          initial_state) = Completed
   \<and> card (answered_questions (snd (answering_loop_scroll_mode (Suc (Suc 0)) demo_env
          demo_params General_basic initial_state))) = 2"
proof -
  have h: "0 \<le> total_questions demo_params" by (simp add: demo_params_def)
  show ?thesis
    using h scroll_answered_bounded [OF h, of "Suc (Suc 0)" demo_env General_basic initial_state]
    by (simp add: demo_run)
qed

section \<open>Properties of the fixed-page loop, the error policy and the start\<close>

lemma started_append: "started (xs @ ys) = started xs @ started ys"
  by (induction xs rule: started.induct) simp_all

lemma click_options_started:
  assumes "click_options env warn q pos opts st = (r, st')"
    and "\<And>q' opt. started [warn q' opt] = []"
  shows "\<exists>ms. logged st' = logged st @ ms \<and> started ms = []"
  using assms(1)
proof (induction opts arbitrary: st)
  case Nil
  then show ?case by simp
next
  case (Cons opt rest)
  show ?case
  proof (cases pos)
    case None
    with Cons.prems show ?thesis by simp
  next
    case (Some ps)
    show ?thesis
    proof (cases "map_of ps opt")
      case None
      with Some Cons.prems
      have "click_options env warn q pos rest (write_log (warn q opt) st) = (r, st')" by simp
      from Cons.IH [OF this] obtain ms where
        "logged st' = logged st @ [warn q opt] @ ms" "started ms = []" by auto
      moreover have "started ([warn q opt] @ ms) = []"
        using assms(2) [of q opt] \<open>started ms = []\<close> by (simp only: started_append) simp
      ultimately show ?thesis by blast
    next
      case (Some xy)
      obtain x y where xy: "xy = (x, y)" by (cases xy)
      obtain r1 st1 where cp: "click_position env x y st = (r1, st1)"
        by (cases "click_position env x y st")
      note f = click_position_fields [OF cp]
      show ?thesis
      proof (cases r1)
        case (Some e)
        with cp xy \<open>map_of ps opt = Some xy\<close> \<open>pos = Some ps\<close> Cons.prems f
        show ?thesis by auto
      next
        case None
        with cp xy \<open>map_of ps opt = Some xy\<close> \<open>pos = Some ps\<close> Cons.prems
        have "click_options env warn q pos rest (write_log (LogClick q opt x y) st1) = (r, st')"
          by simp
        from Cons.IH [OF this] f obtain ms where
          "logged st' = logged st @ [LogClick q opt x y] @ ms" "started ms = []" by auto
        then show ?thesis
          by (intro exI [of _ "[LogClick q opt x y] @ ms"]) (simp add: started_append)
      qed
    qed
  qed
qed

lemma recognize_stage_started:
  assumes "recognize_stage env P i st = (r, st')"
  shows "\<exists>ms. logged st' = logged st @ ms \<and> started ms = []"
  using assms
  by (auto simp: recognize_stage_def Let_def split: sum.splits ocr_result.splits option.splits)

lemma click_stage_started:
  assumes "click_stage env i pos answer st = (r, st')"
  shows "\<exists>ms. logged st' = logged st @ ms \<and> started ms = []"
proof -
  obtain r1 st1 where co: "click_options env LogUnmarked i pos (parse_answer answer)
      (write_log (LogParsed i (parse_answer answer)) st) = (r1, st1)"
    by (cases "click_options env LogUnmarked i pos (parse_answer answer)
      (write_log (LogParsed i (parse_answer answer)) st)")
  from click_options_started [OF co] obtain ms where
    "logged st1 = logged st @ [LogParsed i (parse_answer answer)] @ ms" "started ms = []"
    by auto
  moreover from co assms have "st' = st1"
    by (auto simp: click_stage_def Let_def split: option.splits)
  ultimately show ?thesis
    by (intro exI [of _ "[LogParsed i (parse_answer answer)] @ ms"]) (simp add: started_append)
qed

lemma next_stage_started:
  assumes "next_stage env P i is_last st = (r, st')"
  shows "\<exists>ms. logged st' = logged st @ ms \<and> started ms = []"
  using assms
  by (auto simp: next_stage_def click_position_def split: option.splits if_splits prod.splits)

lemma answer_single_question_started:
  assumes "answer_single_question env P i is_last st = (r, st')"
  shows "\<exists>ms. logged st' = logged st @ ms \<and> started ms = [i]"
proof -
  define st0 where "st0 = write_log (LogProcessing i) st"
  have l0: "logged st0 = logged st @ [LogProcessing i]" by (simp add: st0_def)
  have goal: "\<exists>ms. logged st' = logged st @ ms \<and> started ms = [i]"
    if "logged st' = logged st0 @ ms'" "started ms' = []" for ms'
    using that l0 by (intro exI [of _ "[LogProcessing i] @ ms'"]) (simp add: started_append)
  show ?thesis
  proof (cases "capture_region env (clock st0)")
    case (Some e)
    with assms have "st' = tick st0"
      by (simp add: answer_single_question_def st0_def Let_def)
    then show ?thesis using goal [of "[]"] by simp
  next
    case None
    define st1 where "st1 = write_log (LogShotOk i) (tick st0)"
    obtain r2 st2 where rs: "recognize_stage env P i st1 = (r2, st2)"
      by (cases "recognize_stage env P i st1")
    from recognize_stage_started [OF rs] obtain ms2 where
      l2: "logged st2 = logged st0 @ ([LogShotOk i] @ ms2)" and s2: "started ms2 = []"
      by (auto simp: st1_def)
    show ?thesis
    proof (cases r2)
      case (Inl e)
      with None rs assms have "st' = st2"
        by (simp add: answer_single_question_def st0_def st1_def Let_def)
      with l2 s2 show ?thesis using goal [of "[LogShotOk i] @ ms2"] by (simp add: started_append)
    next
      case (Inr tp)
      obtain question_text positions where tp: "tp = (question_text, positions)" by (cases tp)
      show ?thesis
      proof (cases "analyze_question env (clock st2)")
        case (Inl e)
        with None rs Inr tp assms have "st' = tick st2"
          by (simp add: answer_single_question_def st0_def st1_def Let_def)
        with l2 s2 show ?thesis using goal [of "[LogShotOk i] @ ms2"] by (simp add: started_append)
      next
        case ans: (Inr answer)
        define st3 where "st3 = write_log (LogAI i answer) (tick st2)"
        obtain r4 st4 where cs: "click_stage env i positions answer st3 = (r4, st4)"
          by (cases "click_stage env i positions answer st3")
        from click_stage_started [OF cs] obtain ms4 where
          l4: "logged st4 = logged st0 @ ([LogShotOk i] @ ms2 @ [LogAI i answer] @ ms4)"
          and s4: "started ms4 = []"
          using l2 by (auto simp: st3_def)
        have s4': "started ([LogShotOk i] @ ms2 @ [LogAI i answer] @ ms4) = []"
          using s2 s4 by (simp add: started_append)
        show ?thesis
        proof (cases r4)
          case (Some e)
          with None rs Inr tp ans cs assms have "st' = st4"
            by (simp add: answer_single_question_def st0_def st1_def st3_def Let_def)
          with l4 s4' show ?thesis using goal by blast
        next
          case none4: None
          with None rs Inr tp ans cs assms have "next_stage env P i is_last st4 = (r, st')"
            by (simp add: answer_single_question_def st0_def st1_def st3_def Let_def)
          from next_stage_started [OF this] obtain ms5 where
            "logged st' = logged st4 @ ms5" "started ms5 = []" by auto
          with l4 s4' have "logged st' = logged st0 @ (([LogShotOk i] @ ms2 @ [LogAI i answer] @ ms4) @ ms5)"
            "started (([LogShotOk i] @ ms2 @ [LogAI i answer] @ ms4) @ ms5) = []"
            by (simp_all only: started_append append_assoc append_Nil2)
          then show ?thesis using goal by blast
        qed
      qed
    qed
  qed
qed

lemma normal_for_error:
  assumes "\<not> stop_flag env (clock st)"
    and "fst (answer_single_question env P i (int i = total_questions P) (tick st)) = Some e"
  shows "normal_for env P (i # rest) st =
     normal_for env P rest (write_log (LogError i e)
       (snd (answer_single_question env P i (int i = total_questions P) (tick st))))"
proof -
  obtain r st2 where a: "answer_single_question env P i (int i = total_questions P) (tick st) = (r, st2)"
    by (cases "answer_single_question env P i (int i = total_questions P) (tick st)")
  with assms show ?thesis by (simp add: read_stop_flag_def Let_def)
qed

lemma normal_for_all_started:
  assumes "\<forall>t. \<not> stop_flag env t" and "py_sleep env (interval P) = None"
  shows "fst (normal_for env P js st) = None
       \<and> (\<exists>ms. logged (snd (normal_for env P js st)) = logged st @ ms \<and> started ms = js)"
proof (induction js arbitrary: st)
  case Nil
  show ?case by simp
next
  case (Cons i rest)
  obtain r st2 where a: "answer_single_question env P i (int i = total_questions P) (tick st) = (r, st2)"
    by (cases "answer_single_question env P i (int i = total_questions P) (tick st)")
  from answer_single_question_started [OF a] obtain ms2 where
    l2: "logged st2 = logged st @ ms2" and s2: "started ms2 = [i]" by auto
  define st3 where "st3 = (case r of Some e \<Rightarrow> write_log (LogError i e) st2
      | None \<Rightarrow> if int i = total_questions P then st2 else tick st2)"
  have step: "normal_for env P (i # rest) st = normal_for env P rest st3"
    using assms a by (cases r) (simp_all add: read_stop_flag_def Let_def st3_def)
  have "\<exists>ms3. logged st3 = logged st @ ms3 \<and> started ms3 = [i]"
  proof (cases r)
    case None
    with l2 s2 show ?thesis by (auto simp: st3_def)
  next
    case (Some e)
    with l2 have "logged st3 = logged st @ (ms2 @ [LogError i e])" by (simp add: st3_def)
    moreover have "started (ms2 @ [LogError i e]) = [i]" using s2 by (simp add: started_append)
    ultimately show ?thesis by blast
  qed
  then obtain ms3 where l3: "logged st3 = logged st @ ms3" and s3: "started ms3 = [i]" by auto
  from Cons.IH [of st3] obtain ms where
    f: "fst (normal_for env P rest st3) = None"
    and l: "logged (snd (normal_for env P rest st3)) = logged st3 @ ms" and s: "started ms = rest"
    by auto
  have "logged (snd (normal_for env P (i # rest) st)) = logged st @ (ms3 @ ms)"
    using step l l3 by simp
  moreover have "started (ms3 @ ms) = i # rest" using s3 s by (simp add: started_append)
  ultimately show ?case using step f by auto
qed

text \<open>
  C8. In the fixed-page loop an exception of \<open>_answer_single_question\<close>, whichever stage
  raised it, is logged and the loop goes on with the remaining indices. Hence, when the
  stop flag is never set and the sleep between two questions does not raise (it is
  outside the \<open>try\<close>, and \<open>time.sleep\<close> raises for a length that is negative, not a
  number, infinite or beyond the range of the clock), the loop returns without an
  exception, an iteration has begun for every index of \<open>1..total\<close> in turn, whatever
  failed, and the completion line closes the log.
\<close>

theorem normal_loop_continues:
  "(\<not> stop_flag env (clock st)
      \<and> fst (answer_single_question env P i (int i = total_questions P) (tick st)) = Some e
    \<longrightarrow> normal_for env P (i # rest) st =
          normal_for env P rest (write_log (LogError i e)
            (snd (answer_single_question env P i (int i = total_questions P) (tick st)))))
   \<and> ((\<forall>t. \<not> stop_flag env t) \<and> py_sleep env (interval P) = None
    \<longrightarrow> fst (answering_loop_normal_mode env P st) = None
        \<and> (\<exists>ms. logged (snd (answering_loop_normal_mode env P st))
                  = logged st @ [LogStart] @ ms @ [LogComplete (total_questions P)]
              \<and> started ms = py_range1 (total_questions P)))"
proof (intro conjI impI)
  assume "\<not> stop_flag env (clock st)
      \<and> fst (answer_single_question env P i (int i = total_questions P) (tick st)) = Some e"
  then show "normal_for env P (i # rest) st =
          normal_for env P rest (write_log (LogError i e)
            (snd (answer_single_question env P i (int i = total_questions P) (tick st))))"
    using normal_for_error by blast
next
  assume h: "(\<forall>t. \<not> stop_flag env t) \<and> py_sleep env (interval P) = None"
  define R where "R = normal_for env P (py_range1 (total_questions P)) (write_log LogStart st)"
  from h normal_for_all_started [of env P "py_range1 (total_questions P)" "write_log LogStart st"]
  obtain ms where f: "fst R = None"
    and l: "logged (snd R) = logged st @ [LogStart] @ ms"
    and s: "started ms = py_range1 (total_questions P)"
    by (auto simp: R_def)
  have eq: "answering_loop_normal_mode env P st =
      (None, write_log (LogComplete (total_questions P)) (tick (snd R)))"
    using f h by (cases R) (simp add: answering_loop_normal_mode_def R_def [symmetric]
        read_stop_flag_def)
  show "fst (answering_loop_normal_mode env P st) = None" using eq by simp
  show "\<exists>ms. logged (snd (answering_loop_normal_mode env P st))
                  = logged st @ [LogStart] @ ms @ [LogComplete (total_questions P)]
              \<and> started ms = py_range1 (total_questions P)"
    using eq l s by (intro exI [of _ ms]) simp
qed

lemma py_range1_3: "py_range1 3 = [1, 2, 3]"
  by (simp add: py_range1_def upt_rec)

lemma failing_run:
  "answering_loop_normal_mode failing_env fixed_params initial_state =
     (None, \<lparr>clock = 7, answered_questions = {},
        logged = [LogStart,
          LogProcessing 1, LogError 1 (StageException Capture (External 1)),
          LogProcessing 2, LogError 2 (StageException Capture (External 1)),
          LogProcessing 3, LogError 3 (StageException Capture (External 1)),
          LogComplete 3],
        actions = []\<rparr>)"
  by (simp add: answering_loop_normal_mode_def py_range1_3 answer_single_question_def
      read_stop_flag_def write_log_def tick_def failing_env_def fixed_params_def
      initial_state_def Let_def)

theorem normal_loop_continues_witness:
  "(\<forall>t. \<not> stop_flag failing_env t) \<and> py_sleep failing_env (interval fixed_params) = None
   \<and> (\<forall>t. \<not> stop_flag page_env t) \<and> py_sleep page_env (interval fixed_params) = None
   \<and> fst (answering_loop_normal_mode page_env fixed_params initial_state) = None
   \<and> fst (answer_single_question failing_env fixed_params 1
            (int 1 = total_questions fixed_params) (tick initial_state))
       = Some (StageException Capture (External 1))
   \<and> fst (answering_loop_normal_mode failing_env fixed_params initial_state) = None
   \<and> started (logged (snd (answering_loop_normal_mode failing_env fixed_params initial_state)))
       = [1, 2, 3]"
  using normal_loop_continues [of failing_env initial_state fixed_params 1
      "StageException Capture (External 1)" "[2, 3]"]
    normal_loop_continues [of page_env initial_state fixed_params 1
      "StageException Capture (External 1)" "[2, 3]"]
  by (simp add: failing_run)
    (simp add: failing_env_def page_env_def fixed_params_def answer_single_question_def
      py_sleep_def Let_def)

lemma scroll_capture_failure:
  assumes "\<not> stop_flag env (clock st)"
    and "int (card (answered_questions st)) < total_questions P"
    and "capture_region env (Suc (clock st)) = Some e"
  shows "scroll_while (Suc n) env P mode st
       = (Aborted, write_log (LogCaptureFailed e) (tick (tick st)))"
  using assms by (simp add: scroll_iteration_def read_stop_flag_def)

lemma scroll_recognition_failure:
  assumes "\<not> stop_flag env (clock st)"
    and "int (card (answered_questions st)) < total_questions P"
    and "capture_region env (Suc (clock st)) = None"
    and "recognize_text env (Suc (Suc (clock st))) = Inl e"
  shows "\<exists>st'. scroll_while (Suc n) env P mode st = (Aborted, write_log (LogOcrFailed e) st')
       \<and> answered_questions st' = answered_questions st \<and> actions st' = actions st
       \<and> clock st' = clock st + 3"
proof -
  define st2 where "st2 = write_log (LogCaptureOk (card (answered_questions st))
      (total_questions P)) (tick (tick st))"
  define st3 where "st3 = tick (if mode \<noteq> Accurate_basic then write_log LogOcrWarn st2 else st2)"
  have "scroll_while (Suc n) env P mode st = (Aborted, write_log (LogOcrFailed e) st3)"
    using assms
    by (cases "mode = Accurate_basic")
      (simp_all add: scroll_iteration_def scroll_recognize_def read_stop_flag_def Let_def
        st2_def st3_def)
  moreover have "answered_questions st3 = answered_questions st" "actions st3 = actions st"
    "clock st3 = clock st + 3"
    by (simp_all add: st2_def st3_def)
  ultimately show ?thesis by blast
qed

lemma answer_question_handler:
  assumes "fst (answer_body env P t ws q st) = Some e"
  shows "answer_question env P t ws q st
       = mark_answered q (write_log (LogError q e) (snd (answer_body env P t ws q st)))"
  using assms by (cases "answer_body env P t ws q st") (simp add: answer_question_def)

lemma answer_body_oracle_failure:
  assumes "analyze_question env (clock st) = Inl e"
  shows "answer_body env P t ws q st = (Some e, tick st)"
  using assms by (simp add: answer_body_def)

lemma answer_body_click_failure:
  assumes "analyze_question env (clock st) = Inr answer"
    and "click_options env LogNotFound q
           (Some (case option_positions P of
                    None \<Rightarrow> extract_option_positions ws (region P) | Some pos \<Rightarrow> pos))
           (parse_answer answer)
           (write_log (LogParsed q (parse_answer answer)) (write_log (LogAI q answer) (tick st)))
         = (Some e, st3)"
  shows "answer_body env P t ws q st = (Some e, st3)"
  using assms by (simp add: answer_body_def Let_def)

text \<open>
  C7. In the scroll loop, when no stop is requested and the target is not reached: a
  failure of the capture ends the loop at once, and so does a failure of the recognition,
  with nothing answered and no pointer action in that pass. An exception while answering
  one question (the oracle fails, a click fails, or anything else inside the \<open>try\<close>) is
  caught: it is logged, the question is added to the answered set all the same, and the
  window loop continues with the next question.
\<close>

theorem scroll_error_policy:
  "(\<not> stop_flag env (clock st) \<and> int (card (answered_questions st)) < total_questions P
      \<and> capture_region env (Suc (clock st)) = Some e
    \<longrightarrow> scroll_while (Suc n) env P mode st
          = (Aborted, write_log (LogCaptureFailed e) (tick (tick st))))
   \<and> (\<not> stop_flag env (clock st) \<and> int (card (answered_questions st)) < total_questions P
      \<and> capture_region env (Suc (clock st)) = None
      \<and> recognize_text env (Suc (Suc (clock st))) = Inl e
    \<longrightarrow> (\<exists>st'. scroll_while (Suc n) env P mode st
                  = (Aborted, write_log (LogOcrFailed e) st')
            \<and> answered_questions st' = answered_questions st \<and> actions st' = actions st
            \<and> clock st' = clock st + 3))
   \<and> (analyze_question env (clock st) = Inl e
    \<longrightarrow> answer_question env P t ws q st
          = mark_answered q (write_log (LogError q e) (tick st)))
   \<and> (analyze_question env (clock st) = Inr answer
      \<and> click_options env LogNotFound q
           (Some (case option_positions P of
                    None \<Rightarrow> extract_option_positions ws (region P) | Some pos \<Rightarrow> pos))
           (parse_answer answer)
           (write_log (LogParsed q (parse_answer answer)) (write_log (LogAI q answer) (tick st)))
         = (Some e, st3)
    \<longrightarrow> answer_question env P t ws q st = mark_answered q (write_log (LogError q e) st3))
   \<and> (fst (answer_body env P t ws q st) = Some e
    \<longrightarrow> answer_question env P t ws q st
          = mark_answered q (write_log (LogError q e) (snd (answer_body env P t ws q st))))
   \<and> q \<in> answered_questions (answer_question env P t ws q st)
   \<and> (\<not> stop_flag env (clock st) \<and> int (card (answered_questions st)) < total_questions P
    \<longrightarrow> answer_window env P t ws (q # rest) st
          = answer_window env P t ws rest (answer_question env P t ws q (tick st)))"
proof (intro conjI impI)
  assume "\<not> stop_flag env (clock st) \<and> int (card (answered_questions st)) < total_questions P
      \<and> capture_region env (Suc (clock st)) = Some e"
  then show "scroll_while (Suc n) env P mode st
          = (Aborted, write_log (LogCaptureFailed e) (tick (tick st)))"
    using scroll_capture_failure by blast
next
  assume "\<not> stop_flag env (clock st) \<and> int (card (answered_questions st)) < total_questions P
      \<and> capture_region env (Suc (clock st)) = None
      \<and> recognize_text env (Suc (Suc (clock st))) = Inl e"
  then show "\<exists>st'. scroll_while (Suc n) env P mode st
                  = (Aborted, write_log (LogOcrFailed e) st')
            \<and> answered_questions st' = answered_questions st \<and> actions st' = actions st
            \<and> clock st' = clock st + 3"
    using scroll_recognition_failure by blast
next
  assume a: "analyze_question env (clock st) = Inl e"
  show "answer_question env P t ws q st = mark_answered q (write_log (LogError q e) (tick st))"
    using answer_body_oracle_failure [OF a, of P t ws q]
      answer_question_handler [of env P t ws q st e] by simp
next
  assume a: "analyze_question env (clock st) = Inr answer
      \<and> click_options env LogNotFound q
           (Some (case option_positions P of
                    None \<Rightarrow> extract_option_positions ws (region P) | Some pos \<Rightarrow> pos))
           (parse_answer answer)
           (write_log (LogParsed q (parse_answer answer)) (write_log (LogAI q answer) (tick st)))
         = (Some e, st3)"
  then have "answer_body env P t ws q st = (Some e, st3)"
    using answer_body_click_failure by blast
  then show "answer_question env P t ws q st = mark_answered q (write_log (LogError q e) st3)"
    using answer_question_handler [of env P t ws q st e] by simp
next
  assume "fst (answer_body env P t ws q st) = Some e"
  then show "answer_question env P t ws q st
          = mark_answered q (write_log (LogError q e) (snd (answer_body env P t ws q st)))"
    by (rule answer_question_handler)
next
  show "q \<in> answered_questions (answer_question env P t ws q st)"
    by (simp add: answer_question_answered)
next
  assume "\<not> stop_flag env (clock st) \<and> int (card (answered_questions st)) < total_questions P"
  then show "answer_window env P t ws (q # rest) st
          = answer_window env P t ws rest (answer_question env P t ws q (tick st))"
    by (simp add: answer_window_Cons)
qed

lemma oracle_failure_run:
  "answering_loop_scroll_mode (Suc (Suc 0)) oracle_fails_once demo_params Accurate_basic
     initial_state =
   (Completed,
    \<lparr>clock = 10, answered_questions = {2, 1},
     logged = [LogStartScroll, LogCaptureOk 0 2, LogNumbers [1, 2],
        LogError 1 (External 3), LogAI 2 [65], LogParsed 2 [[65]],
        LogClick 2 [65] 50 210, LogDone 2, LogComplete 2],
     actions = [Click 50 210]\<rparr>)"
  by (simp add: loop_eval oracle_fails_once_def demo_env_def demo_params_def demo_questions
      demo_options answer_eval)

lemma click_failure_run:
  "answering_loop_scroll_mode (Suc (Suc 0)) click_fails_once demo_params Accurate_basic
     initial_state =
   (Completed,
    \<lparr>clock = 11, answered_questions = {2, 1},
     logged = [LogStartScroll, LogCaptureOk 0 2, LogNumbers [1, 2], LogAI 1 [65],
        LogParsed 1 [[65]], LogError 1 (AutomationException (External 4)),
        LogAI 2 [65], LogParsed 2 [[65]], LogClick 2 [65] 50 210, LogDone 2,
        LogComplete 2],
     actions = [Click 50 210]\<rparr>)"
  by (simp add: loop_eval click_fails_once_def demo_env_def demo_params_def demo_questions
      demo_options answer_eval)

theorem scroll_error_policy_witness:
  "scroll_while (Suc 0) failing_env demo_params Accurate_basic initial_state
     = (Aborted, write_log (LogCaptureFailed (External 1)) (tick (tick initial_state)))
   \<and> (\<exists>st'. scroll_while (Suc 0) recognition_fails demo_params Accurate_basic initial_state
             = (Aborted, write_log (LogOcrFailed (External 2)) st')
         \<and> answered_questions st' = {} \<and> actions st' = [] \<and> clock st' = 3)
   \<and> analyze_question oracle_fails_once (clock (initial_state\<lparr>clock := 4\<rparr>)) = Inl (External 3)
   \<and> answer_question oracle_fails_once demo_params [49] demo_words 1 (initial_state\<lparr>clock := 4\<rparr>)
       = mark_answered 1 (write_log (LogError 1 (External 3)) (tick (initial_state\<lparr>clock := 4\<rparr>)))
   \<and> fst (answer_body click_fails_once demo_params [49] demo_words 1 (initial_state\<lparr>clock := 4\<rparr>))
       = Some (AutomationException (External 4))
   \<and> 1 \<in> answered_questions
       (answer_question click_fails_once demo_params [49] demo_words 1 (initial_state\<lparr>clock := 4\<rparr>))
   \<and> answer_window oracle_fails_once demo_params [49] demo_words [1, 2] (initial_state\<lparr>clock := 3\<rparr>)
       = answer_window oracle_fails_once demo_params [49] demo_words [2]
           (answer_question oracle_fails_once demo_params [49] demo_words 1
              (tick (initial_state\<lparr>clock := 3\<rparr>)))"
  using
    scroll_error_policy [of failing_env initial_state demo_params "External 1" 0 Accurate_basic]
    scroll_error_policy [of recognition_fails initial_state demo_params "External 2" 0 Accurate_basic]
    scroll_error_policy [of oracle_fails_once "initial_state\<lparr>clock := 4\<rparr>" demo_params
      "External 3" 0 Accurate_basic "[49]" demo_words 1]
    scroll_error_policy [of click_fails_once "initial_state\<lparr>clock := 4\<rparr>" demo_params
      "AutomationException (External 4)" 0 Accurate_basic "[49]" demo_words 1]
    scroll_error_policy [of oracle_fails_once "initial_state\<lparr>clock := 3\<rparr>" demo_params
      "External 3" 0 Accurate_basic "[49]" demo_words 1 _ _ "[2]"]
  by (simp add: failing_env_def recognition_fails_def oracle_fails_once_def click_fails_once_def
      demo_env_def demo_params_def initial_state_def answer_body_def click_position_def
      demo_options answer_eval write_log_def tick_def Let_def)

text \<open>
  C9. Started for a fixed-page session in the basic recognition mode without option
  positions, \<open>_on_start_button_click\<close> does not reach its configuration error for the
  missing positions (which the check itself would give): reading \<open>scroll_mode\<close> raises
  \<open>UnboundLocalError\<close>, and the start is reported as failed with that exception.
\<close>

theorem start_without_positions:
  "on_start_button_click gui_without_positions = StartFailed UnboundLocalError
   \<and> check_option_positions False gui_without_positions = Some NeedOptionPositions"
  by (simp add: on_start_button_click_def gui_without_positions_def check_keys_def
      read_local_def check_option_positions_def)

lemma on_start_button_click_never_starts:
  "on_start_button_click g \<noteq> Started P m b"
  by (simp add: on_start_button_click_def read_local_def split: option.splits)

lemma missing_positions_found_in_iteration:
  assumes "option_positions P = None"
    and "capture_region env (clock st) = None"
    and "recognize_text env (Suc (clock st)) = Inr (OcrStr body)"
    and "analyze_question env (Suc (Suc (clock st))) = Inr answer"
    and "parse_answer answer \<noteq> []"
  shows "fst (answer_single_question env P i is_last st)
       = Some (StageException ClickAnswer TypeError)"
proof -
  from assms(5) obtain opt rest where "parse_answer answer = opt # rest"
    by (cases "parse_answer answer") auto
  with assms(1-4) show ?thesis
    by (simp add: answer_single_question_def recognize_stage_def click_stage_def Let_def)
qed

text \<open>
  The fixed-page scenario: three questions, each answered by one click on option \<open>B\<close>;
  the next button is clicked after the first and the second question and not after the
  third.
\<close>

lemma page_options:
  "extract_option_positions page_words (0, 0, 800, 600)
     = [([65], (50, 110)), ([66], (50, 210)), ([67], (50, 310)), ([68], (50, 410))]"
  by (simp add: page_words_def option_eval)

lemma fixed_page_scenario:
  "actions (snd (answering_loop_normal_mode page_env fixed_params initial_state))
     = [Click 50 210, Click 700 550, Click 50 210, Click 700 550, Click 50 210]"
  by (simp add: answering_loop_normal_mode_def py_range1_3 answer_single_question_def
      recognize_stage_def click_stage_def next_stage_def click_position_def
      read_stop_flag_def write_log_def tick_def act_def py_sleep_def page_env_def
      fixed_params_def initial_state_def page_options answer_eval Let_def)

end
